theory Spec2Isabelle
  imports Main
begin

section \<open>Python values, exceptions and library functions used by tornet.py\<close>

text \<open>
  A Python string is a sequence of Unicode code points.  \<open>ascii\<close> turns a literal of
  this theory into such a string; \<open>dash\<close> is the code point of the separator that
  \<^verbatim>\<open>change_ip_repeatedly\<close> splits the interval at.
\<close>

type_synonym codepoint = nat

type_synonym pystr = "codepoint list"

definition ascii :: "string \<Rightarrow> pystr" where
  "ascii a = map of_char a"

definition dash :: codepoint where
  "dash = 45"

text \<open>
  The exceptions that occur.  \<open>RequestException\<close> stands for
  \<^verbatim>\<open>requests.RequestException\<close> and all its subclasses (connection errors, timeouts,
  \<^verbatim>\<open>HTTPError\<close>, JSON decoding errors); \<open>SystemExit\<close> is raised by \<^verbatim>\<open>exit(0)\<close>;
  \<open>OverflowError\<close> and \<open>OSError\<close> come from \<^verbatim>\<open>time.sleep\<close>.
\<close>

datatype exn =
  AttributeError | IndexError | ValueError | OverflowError | OSError | RequestException
  | SystemExit int

text \<open>
  The \<^verbatim>\<open>interval\<close> argument of \<^verbatim>\<open>change_ip_repeatedly\<close> is annotated \<^verbatim>\<open>str\<close>, but
  Python does not enforce the annotation: \<^verbatim>\<open>main\<close> passes whatever argparse produced,
  which is a string when \<^verbatim>\<open>--interval\<close> is given and the integer default otherwise.
\<close>

datatype pyval = PyStr pystr | PyInt int

text \<open>\<^verbatim>\<open>s.split(sep)\<close> for a one-character separator: always at least one piece.\<close>

fun split_on :: "'a \<Rightarrow> 'a list \<Rightarrow> 'a list list" where
  "split_on c [] = [[]]"
| "split_on c (x # xs) =
     (if x = c then [] # split_on c xs
      else (case split_on c xs of
              [] \<Rightarrow> [[x]]
            | p # ps \<Rightarrow> (x # p) # ps))"

text \<open>\<^verbatim>\<open>xs[i]\<close> for a non-negative index: \<^verbatim>\<open>IndexError\<close> out of range.\<close>

definition item :: "'a list \<Rightarrow> nat \<Rightarrow> exn + 'a" where
  "item xs i = (if i < length xs then Inr (xs ! i) else Inl IndexError)"

text \<open>
  What \<^verbatim>\<open>int\<close> takes from the interpreter: the table of decimal digits of its Unicode
  database (the value of a code point that is a decimal digit), which grows from one
  Python version to the next, and the limit on the number of digits of a string that
  is converted (4300 by default from CPython 3.11 on, none before).
\<close>

record runtime =
  unicode_decimal :: "codepoint \<Rightarrow> nat option"
  max_str_digits :: "nat option"

text \<open>
  Whitespace: for the C library's \<^verbatim>\<open>isspace\<close>, which \<^verbatim>\<open>int\<close> uses once the string is
  ASCII, and for \<^verbatim>\<open>str.isspace\<close>, which \<^verbatim>\<open>str.strip\<close> uses and which \<^verbatim>\<open>int\<close> uses for the
  code points outside ASCII.
\<close>

definition is_space :: "codepoint \<Rightarrow> bool" where
  "is_space c = (c \<in> set [9, 10, 11, 12, 13, 32])"

definition is_unicode_space :: "codepoint \<Rightarrow> bool" where
  "is_unicode_space c =
     (c \<in> set [9, 10, 11, 12, 13, 28, 29, 30, 31, 32, 0x85, 0xA0, 0x1680,
                0x2000, 0x2001, 0x2002, 0x2003, 0x2004, 0x2005, 0x2006, 0x2007, 0x2008,
                0x2009, 0x200A, 0x2028, 0x2029, 0x202F, 0x205F, 0x3000])"

definition strip :: "pystr \<Rightarrow> pystr" where
  "strip a = rev (dropWhile is_space (rev (dropWhile is_space a)))"

text \<open>\<^verbatim>\<open>s.strip()\<close> of a string.\<close>

definition str_strip :: "pystr \<Rightarrow> pystr" where
  "str_strip a = rev (dropWhile is_unicode_space (rev (dropWhile is_unicode_space a)))"

text \<open>
  \<^verbatim>\<open>int(s)\<close> first makes the string ASCII: a code point below 128 stays, a Unicode
  space becomes a blank, a Unicode decimal digit becomes the ASCII digit of its value,
  and anything else makes the string invalid.
\<close>

definition to_ascii :: "runtime \<Rightarrow> codepoint \<Rightarrow> codepoint option" where
  "to_ascii py c =
     (if c < 128 then Some c
      else if is_unicode_space c then Some 32
      else (case unicode_decimal py c of
              None \<Rightarrow> None
            | Some d \<Rightarrow> if d < 10 then Some (48 + d) else None))"

fun transform :: "runtime \<Rightarrow> pystr \<Rightarrow> pystr option" where
  "transform py [] = Some []"
| "transform py (c # cs) =
     (case to_ascii py c of
        None \<Rightarrow> None
      | Some a \<Rightarrow> (case transform py cs of None \<Rightarrow> None | Some r \<Rightarrow> Some (a # r)))"

text \<open>
  Then, in base 10: surrounding whitespace is stripped, one optional sign, then decimal
  digits in which single underscores may separate digits.
\<close>

definition is_digit :: "codepoint \<Rightarrow> bool" where
  "is_digit c = (48 \<le> c \<and> c \<le> 57)"

definition digit_val :: "codepoint \<Rightarrow> nat" where
  "digit_val c = c - 48"

fun int_digits :: "nat \<Rightarrow> pystr \<Rightarrow> nat option" where
  "int_digits acc [] = Some acc"
| "int_digits acc [c] = (if is_digit c then Some (10 * acc + digit_val c) else None)"
| "int_digits acc (c # d # rest) =
     (if is_digit c then int_digits (10 * acc + digit_val c) (d # rest)
      else if c = 95 \<and> is_digit d then int_digits (10 * acc + digit_val d) rest
      else None)"

definition int_literal :: "pystr \<Rightarrow> nat option" where
  "int_literal a =
     (case a of
        [] \<Rightarrow> None
      | c # rest \<Rightarrow> if is_digit c then int_digits (digit_val c) rest else None)"

definition signed_literal :: "pystr \<Rightarrow> int option" where
  "signed_literal a =
     (case a of
        [] \<Rightarrow> None
      | c # rest \<Rightarrow>
          if c = 45 then map_option (\<lambda>n. - int n) (int_literal rest)
          else if c = 43 then map_option int (int_literal rest)
          else map_option int (int_literal a))"

text \<open>A literal with more digits than the interpreter's limit is refused.\<close>

definition too_long :: "runtime \<Rightarrow> pystr \<Rightarrow> bool" where
  "too_long py a =
     (case max_str_digits py of None \<Rightarrow> False | Some m \<Rightarrow> m < length (filter is_digit a))"

text \<open>Every failure of \<^verbatim>\<open>int(s)\<close> is a \<^verbatim>\<open>ValueError\<close>.\<close>

definition int_of_str :: "runtime \<Rightarrow> pystr \<Rightarrow> exn + int" where
  "int_of_str py a =
     (case transform py a of
        None \<Rightarrow> Inl ValueError
      | Some b \<Rightarrow>
          (case signed_literal (strip b) of
             None \<Rightarrow> Inl ValueError
           | Some n \<Rightarrow> if too_long py b then Inl ValueError else Inr n))"

text \<open>\<^verbatim>\<open>int(v)\<close> on the two kinds of value the interval can hold.\<close>

definition py_int :: "runtime \<Rightarrow> pyval \<Rightarrow> exn + int" where
  "py_int py v = (case v of PyStr a \<Rightarrow> int_of_str py a | PyInt n \<Rightarrow> Inr n)"

text \<open>\<^verbatim>\<open>v.split("-")\<close>: integers have no such attribute.\<close>

definition py_split_dash :: "pyval \<Rightarrow> exn + pystr list" where
  "py_split_dash v =
     (case v of PyStr a \<Rightarrow> Inr (split_on dash a) | PyInt n \<Rightarrow> Inl AttributeError)"

text \<open>
  \<^verbatim>\<open>random.randint(a, b)\<close>: \<^verbatim>\<open>ValueError\<close> on an empty range, otherwise \<open>a\<close> plus a
  number below the width \<open>b - a + 1\<close>.  The generator's raw output \<open>r\<close> is supplied by
  the environment.
\<close>

definition randint :: "int \<Rightarrow> int \<Rightarrow> nat \<Rightarrow> exn + int" where
  "randint a b r = (if a \<le> b then Inr (a + int (r mod nat (b - a + 1))) else Inl ValueError)"

section \<open>The sleep duration of one cycle\<close>

text \<open>
  The body of the \<^verbatim>\<open>try\<close> in \<^verbatim>\<open>change_ip_repeatedly\<close>:
  \<^verbatim>\<open>inte = interval.split("-"); sleep_time = random.randint(int(inte[0]), int(inte[1]))\<close>.
  Arguments are evaluated left to right, so \<^verbatim>\<open>int(inte[0])\<close> is computed before
  \<^verbatim>\<open>inte[1]\<close> is read.
\<close>

definition sleep_time_try :: "runtime \<Rightarrow> pyval \<Rightarrow> nat \<Rightarrow> exn + int" where
  "sleep_time_try py interval r =
     (case py_split_dash interval of
        Inl x \<Rightarrow> Inl x
      | Inr inte \<Rightarrow>
          (case item inte 0 of
             Inl x \<Rightarrow> Inl x
           | Inr p0 \<Rightarrow>
               (case int_of_str py p0 of
                  Inl x \<Rightarrow> Inl x
                | Inr a \<Rightarrow>
                    (case item inte 1 of
                       Inl x \<Rightarrow> Inl x
                     | Inr p1 \<Rightarrow>
                         (case int_of_str py p1 of
                            Inl x \<Rightarrow> Inl x
                          | Inr b \<Rightarrow> randint a b r)))))"

text \<open>
  The whole \<^verbatim>\<open>try ... except IndexError: sleep_time = int(interval)\<close>: only
  \<^verbatim>\<open>IndexError\<close> is handled, every other exception propagates.
\<close>

definition sleep_time :: "runtime \<Rightarrow> pyval \<Rightarrow> nat \<Rightarrow> exn + int" where
  "sleep_time py interval r =
     (case sleep_time_try py interval r of
        Inl x \<Rightarrow> (if x = IndexError then py_int py interval else Inl x)
      | Inr t \<Rightarrow> Inr t)"

section \<open>Environment, state and effects\<close>

text \<open>
  The seven logging functions of \<^verbatim>\<open>log.py\<close> as severities, and the messages that
  \<^verbatim>\<open>tornet.py\<close> passes to them.  A message is kept structured (the values formatted
  into it are its arguments) instead of as formatted text.
\<close>

datatype severity = Success | Info | Notice | Minor | Warn | Error | Change

datatype message =
    ReloadingTor  \<comment> \<open>Reloading Tor to request new identity...\<close>
  | TorNotFound  \<comment> \<open>Unable to find Tor process. Please check if Tor is running.\<close>
  | StoppingTor  \<comment> \<open>Stopping all Tor-related processes...\<close>
  | FetchingIp  \<comment> \<open>Fetching current IP address...\<close>
  | StaleCircuit "pystr option" "pystr option"  \<comment> \<open>Stale Tor circuit detected: ip1, ip2\<close>
  | NotExitNode "pystr option"  \<comment> \<open>The IP ... is not recognized as a Tor exit node.\<close>
  | TorFetchFailed  \<comment> \<open>Failed to fetch Tor IP from ...\<close>
  | EchoFetchFailed  \<comment> \<open>Having trouble fetching the IP address. ...\<close>
  | RequestingNewIp  \<comment> \<open>Requesting new IP address via Tor...\<close>
  | SleepingFor int  \<comment> \<open>Sleeping for ... seconds before refreshing IP...\<close>
  | Border nat  \<comment> \<open>a line of that many equals signs\<close>
  | BorderEnd nat  \<comment> \<open>the same line followed by a newline\<close>
  | IpChanged "pystr option"  \<comment> \<open>Your IP has been changed to: ...\<close>
  | TorProcessStopped  \<comment> \<open>Tor process stopped.\<close>
  | NoTorProcess  \<comment> \<open>No Tor process found to stop.\<close>
  | ServicesStopped  \<comment> \<open>Tor services and tornet processes stopped.\<close>
  | TerminatedByUser  \<comment> \<open>Program terminated by user.\<close>
  | WaitingForTor nat  \<comment> \<open>Waiting for Tor SOCKS proxy to become responsive...\<close>
  | SocksResponding  \<comment> \<open>Tor SOCKS5 proxy is responding.\<close>
  | SocksTimedOut  \<comment> \<open>Timed out waiting for Tor SOCKS5 proxy.\<close>

datatype endpoint = TorCheck | PlainEcho

text \<open>
  What the program does to the outside world, in the order it does it:
  a log line, a bare newline, \<^verbatim>\<open>time.sleep\<close>, a command handed to the operating system
  (\<^verbatim>\<open>os.system\<close>, \<^verbatim>\<open>subprocess\<close>), an HTTP GET with its timeout, and a SOCKS
  connection attempt with its sub-timeout and outcome.
\<close>

datatype event =
    Log severity message
  | PrintNewline
  | Sleep nat
  | Shell string
  | HttpGet endpoint "nat option"
  | SocksConnect nat bool

text \<open>
  What the verification endpoint's body decodes to.  A body that is not JSON makes
  \<^verbatim>\<open>response.json()\<close> raise \<^verbatim>\<open>requests.exceptions.JSONDecodeError\<close>, a
  \<^verbatim>\<open>RequestException\<close>.  A JSON value that is not an object (a list, a string, a number,
  \<^verbatim>\<open>null\<close>) has no \<^verbatim>\<open>get\<close>.  Of an object the code reads the value of
  \<^verbatim>\<open>data.get("IP")\<close>, an address or \<open>None\<close> when the key is missing or null, and the
  truth value of \<^verbatim>\<open>data.get("IsTor", False)\<close>.
\<close>

datatype body = Undecodable | NonObject | Object "pystr option" bool

datatype tor_reply = TorUnreachable | TorResponse nat body

datatype echo_reply = EchoUnreachable | EchoResponse nat pystr

text \<open>
  The environment answers every interaction.  Time-dependent answers are indexed by the
  number of interactions the program has made so far (\<open>tick\<close>).  \<open>sleep_error\<close> is the
  exception with which \<^verbatim>\<open>time.sleep\<close> refuses a duration that is not negative, if it
  does: \<^verbatim>\<open>OverflowError\<close> beyond the range of the C time type, \<^verbatim>\<open>OSError\<close> where the
  operating system rejects the deadline.
\<close>

record env =
  python :: runtime  \<comment> \<open>the interpreter\<close>
  docker_env :: bool  \<comment> \<open>\<^verbatim>\<open>os.environ.get('DOCKER_ENV')\<close> is truthy\<close>
  arch_linux :: bool  \<comment> \<open>\<^verbatim>\<open>is_arch_linux()\<close>\<close>
  windows :: bool  \<comment> \<open>\<^verbatim>\<open>is_windows()\<close>\<close>
  macos :: bool  \<comment> \<open>\<^verbatim>\<open>is_macos()\<close>\<close>
  pidof_tor :: "nat \<Rightarrow> string option"
    \<comment> \<open>stripped output of \<^verbatim>\<open>pidof tor\<close>; \<open>None\<close> is \<^verbatim>\<open>CalledProcessError\<close>\<close>
  tor_process :: "nat \<Rightarrow> bool"  \<comment> \<open>the process table shows a running Tor\<close>
  tor_answer :: "nat \<Rightarrow> tor_reply"
  echo_answer :: "nat \<Rightarrow> echo_reply"
  entropy :: "nat \<Rightarrow> nat"  \<comment> \<open>raw output of the random generator\<close>
  connect_ok :: "nat \<Rightarrow> bool"  \<comment> \<open>the SOCKS connection attempt succeeds\<close>
  connect_time :: "nat \<Rightarrow> nat"  \<comment> \<open>time the attempt takes\<close>
  sleep_error :: "nat \<Rightarrow> int \<Rightarrow> exn option"

record world =
  tick :: nat  \<comment> \<open>interactions with the environment so far\<close>
  clock :: nat  \<comment> \<open>\<^verbatim>\<open>time.time()\<close>, in time units\<close>
  trace :: "event list"  \<comment> \<open>effects so far, oldest first\<close>

definition emit :: "event \<Rightarrow> world \<Rightarrow> world" where
  "emit ev s = s\<lparr>trace := trace s @ [ev]\<rparr>"

definition log :: "severity \<Rightarrow> message \<Rightarrow> world \<Rightarrow> world" where
  "log sev m s = emit (Log sev m) s"

definition shell :: "string \<Rightarrow> world \<Rightarrow> world" where
  "shell cmd s = emit (Shell cmd) s"

definition step :: "world \<Rightarrow> world" where
  "step s = s\<lparr>tick := tick s + 1\<rparr>"

text \<open>
  \<^verbatim>\<open>time.sleep(n)\<close> for one of the small constants of the code, and for a computed
  value: a negative one raises \<^verbatim>\<open>ValueError\<close>, and the environment may refuse a large
  one.
\<close>

definition sleep_for :: "nat \<Rightarrow> world \<Rightarrow> world" where
  "sleep_for n s = emit (Sleep n) (s\<lparr>clock := clock s + n\<rparr>)"

definition py_sleep :: "env \<Rightarrow> int \<Rightarrow> world \<Rightarrow> (exn + unit) \<times> world" where
  "py_sleep e t s =
     (if t < 0 then (Inl ValueError, s)
      else (case sleep_error e (tick s) t of
              Some x \<Rightarrow> (Inl x, s)
            | None \<Rightarrow> (Inr (), sleep_for (nat t) s)))"

text \<open>Python's truth value of an address: \<^verbatim>\<open>None\<close> and the empty string are false.\<close>

definition truthy :: "pystr option \<Rightarrow> bool" where
  "truthy ip = (case ip of None \<Rightarrow> False | Some a \<Rightarrow> a \<noteq> [])"

section \<open>Waiting for the SOCKS proxy: \<^verbatim>\<open>wait_for_tor\<close>\<close>

text \<open>
  One pass through the \<^verbatim>\<open>try\<close> block: a socket with \<^verbatim>\<open>settimeout(5)\<close> connects
  through the proxy.  The environment decides whether it succeeds and how long it takes.
\<close>

definition socks_attempt :: "env \<Rightarrow> world \<Rightarrow> world" where
  "socks_attempt e s =
     emit (SocksConnect 5 (connect_ok e (tick s)))
       (s\<lparr>tick := tick s + 1, clock := clock s + connect_time e (tick s)\<rparr>)"

text \<open>
  \<^verbatim>\<open>while time.time() - start < timeout\<close>: a successful attempt logs and returns
  \<^verbatim>\<open>True\<close>; \<^verbatim>\<open>except Exception\<close> turns any failure into \<^verbatim>\<open>time.sleep(2)\<close> and the
  next test of the deadline.
\<close>

function wait_loop :: "env \<Rightarrow> nat \<Rightarrow> nat \<Rightarrow> world \<Rightarrow> bool \<times> world" where
  "wait_loop e start timeout s =
     (if int (clock s) - int start < int timeout then
        (if connect_ok e (tick s) then (True, log Success SocksResponding (socks_attempt e s))
         else wait_loop e start timeout (sleep_for 2 (socks_attempt e s)))
      else (False, log Error SocksTimedOut s))"
  by pat_completeness auto
termination
  by (relation "measure (\<lambda>(e, start, timeout, s). nat (int start + int timeout - int (clock s)))")
     (auto simp: sleep_for_def socks_attempt_def emit_def)

declare wait_loop.simps [simp del]

definition wait_for_tor :: "env \<Rightarrow> nat \<Rightarrow> world \<Rightarrow> bool \<times> world" where
  "wait_for_tor e timeout s =
     (let s0 = log Info (WaitingForTor timeout) s in wait_loop e (clock s0) timeout s0)"

section \<open>Resolving the address: \<^verbatim>\<open>ma_ip_tor\<close>, \<^verbatim>\<open>ma_ip_normal\<close>, \<^verbatim>\<open>ma_ip\<close>\<close>

text \<open>\<^verbatim>\<open>response.raise_for_status()\<close> raises \<^verbatim>\<open>HTTPError\<close> for the codes 400 to 599.\<close>

definition raise_for_status :: "nat \<Rightarrow> exn + unit" where
  "raise_for_status code = (if 400 \<le> code \<and> code < 600 then Inl RequestException else Inr ())"

text \<open>
  The \<^verbatim>\<open>try\<close> block of \<^verbatim>\<open>ma_ip_tor\<close>: a GET through the proxy with timeout 10, then
  \<^verbatim>\<open>raise_for_status\<close>, \<^verbatim>\<open>json\<close> and the two \<^verbatim>\<open>data.get\<close>.
\<close>

definition ma_ip_tor_try :: "env \<Rightarrow> world \<Rightarrow> (exn + pystr option) \<times> world" where
  "ma_ip_tor_try e s =
     (let s1 = emit (HttpGet TorCheck (Some 10)) (step s) in
      case tor_answer e (tick s) of
        TorUnreachable \<Rightarrow> (Inl RequestException, s1)
      | TorResponse code b \<Rightarrow>
          (case raise_for_status code of
             Inl x \<Rightarrow> (Inl x, s1)
           | Inr u \<Rightarrow>
               (case b of
                  Undecodable \<Rightarrow> (Inl RequestException, s1)
                | NonObject \<Rightarrow> (Inl AttributeError, s1)
                | Object ip is_tor \<Rightarrow>
                    (Inr ip, if \<not> is_tor then log Warn (NotExitNode ip) s1 else s1))))"

definition ma_ip_tor :: "env \<Rightarrow> world \<Rightarrow> (exn + pystr option) \<times> world" where
  "ma_ip_tor e s =
     (case ma_ip_tor_try e s of
        (Inl x, s1) \<Rightarrow>
          (if x = RequestException then (Inr None, log Error TorFetchFailed s1) else (Inl x, s1))
      | (Inr ip, s1) \<Rightarrow> (Inr ip, s1))"

text \<open>The \<^verbatim>\<open>try\<close> block of \<^verbatim>\<open>ma_ip_normal\<close>: a direct GET, no timeout given.\<close>

definition ma_ip_normal_try :: "env \<Rightarrow> world \<Rightarrow> (exn + pystr option) \<times> world" where
  "ma_ip_normal_try e s =
     (let s1 = emit (HttpGet PlainEcho None) (step s) in
      case echo_answer e (tick s) of
        EchoUnreachable \<Rightarrow> (Inl RequestException, s1)
      | EchoResponse code txt \<Rightarrow>
          (case raise_for_status code of
             Inl x \<Rightarrow> (Inl x, s1)
           | Inr u \<Rightarrow> (Inr (Some (str_strip txt)), s1)))"

definition ma_ip_normal :: "env \<Rightarrow> world \<Rightarrow> (exn + pystr option) \<times> world" where
  "ma_ip_normal e s =
     (case ma_ip_normal_try e s of
        (Inl x, s1) \<Rightarrow>
          (if x = RequestException then (Inr None, log Error EchoFetchFailed s1) else (Inl x, s1))
      | (Inr ip, s1) \<Rightarrow> (Inr ip, s1))"

text \<open>
  \<^verbatim>\<open>is_tor_running\<close>: \<^verbatim>\<open>tasklist\<close> on Windows, \<^verbatim>\<open>pgrep -x tor\<close> elsewhere; both reduce
  to whether the process table shows Tor (a failing command counts as not running).
\<close>

definition is_tor_running :: "env \<Rightarrow> world \<Rightarrow> bool \<times> world" where
  "is_tor_running e s =
     (tor_process e (tick s),
      shell (if windows e then ''tasklist'' else ''pgrep -x tor'') (step s))"

definition ma_ip :: "env \<Rightarrow> world \<Rightarrow> (exn + pystr option) \<times> world" where
  "ma_ip e s =
     (case is_tor_running e (log Info FetchingIp s) of
        (running, s1) \<Rightarrow>
          if running then
            (case ma_ip_tor e s1 of
               (Inl x, s2) \<Rightarrow> (Inl x, s2)
             | (Inr ip1, s2) \<Rightarrow>
                 (case ma_ip_tor e (sleep_for 5 s2) of
                    (Inl x, s4) \<Rightarrow> (Inl x, s4)
                  | (Inr ip2, s4) \<Rightarrow>
                      (Inr (if truthy ip2 then ip2 else ip1),
                       if truthy ip1 \<and> truthy ip2 \<and> ip1 \<noteq> ip2
                       then log Warn (StaleCircuit ip1 ip2) s4 else s4)))
          else ma_ip_normal e s1)"

section \<open>Service control: \<^verbatim>\<open>reload_tor_service\<close>, \<^verbatim>\<open>stop_tor_service\<close>, \<^verbatim>\<open>stop_services\<close>\<close>

text \<open>
  The exit status of \<^verbatim>\<open>os.system\<close> is discarded everywhere, so a failing command is
  not visible to the program.  On Windows the reload kills and restarts Tor and waits
  for the proxy; the thread that copies Tor's error output to the log only reads and
  logs, and is left out.
\<close>

definition reload_tor_service :: "env \<Rightarrow> world \<Rightarrow> world" where
  "reload_tor_service e s =
     (let s0 = log Info ReloadingTor s in
      if docker_env e then
        (let s1 = shell ''pidof tor'' (step s0) in
         case pidof_tor e (tick s0) of
           None \<Rightarrow> log Error TorNotFound s1
         | Some pid \<Rightarrow> if pid \<noteq> [] then shell (''kill -HUP '' @ pid) s1 else s1)
      else if arch_linux e then shell ''sudo systemctl reload tor'' s0
      else if windows e then
        snd (wait_for_tor e 30
               (shell ''tor'' (sleep_for 1 (shell ''taskkill /IM tor.exe /F'' s0))))
      else if macos e then shell ''brew services restart tor'' s0
      else shell ''sudo service tor reload'' s0)"




section \<open>Rotation: \<^verbatim>\<open>print_ip\<close>, \<^verbatim>\<open>change_ip\<close>, \<^verbatim>\<open>change_ip_repeatedly\<close>\<close>

text \<open>\<^verbatim>\<open>str(ip)\<close> as formatted into the message; the text before it has 29 characters.\<close>

definition ip_text :: "pystr option \<Rightarrow> pystr" where
  "ip_text ip = (case ip of None \<Rightarrow> ascii ''None'' | Some a \<Rightarrow> a)"

definition print_ip :: "pystr option \<Rightarrow> world \<Rightarrow> world" where
  "print_ip ip s =
     (let border = 29 + length (ip_text ip) in
      log Change (BorderEnd border)
        (log Change (IpChanged ip)
          (log Change (Border border) (emit PrintNewline s))))"

definition change_ip :: "env \<Rightarrow> world \<Rightarrow> (exn + pystr option) \<times> world" where
  "change_ip e s = ma_ip e (reload_tor_service e (log Info RequestingNewIp s))"

text \<open>
  The body shared by both loops of \<^verbatim>\<open>change_ip_repeatedly\<close>.  It yields the value of
  the local variable \<^verbatim>\<open>new_ip\<close>, which the loops discard.
\<close>

definition rotation_cycle :: "env \<Rightarrow> pyval \<Rightarrow> world \<Rightarrow> (exn + pystr option) \<times> world" where
  "rotation_cycle e interval s =
     (case sleep_time (python e) interval (entropy e (tick s)) of
        Inl x \<Rightarrow> (Inl x, s)
      | Inr t \<Rightarrow>
          (case py_sleep e t (log Minor (SleepingFor t) s) of
             (Inl x, s1) \<Rightarrow> (Inl x, s1)
           | (Inr u, s1) \<Rightarrow>
               (case change_ip e s1 of
                  (Inl x, s2) \<Rightarrow> (Inl x, s2)
                | (Inr new_ip, s2) \<Rightarrow>
                    (Inr new_ip, if truthy new_ip then print_ip new_ip s2 else s2))))"

text \<open>\<^verbatim>\<open>for _ in range(count)\<close>: \<open>n\<close> is the length of the range.\<close>

primrec for_range :: "nat \<Rightarrow> env \<Rightarrow> pyval \<Rightarrow> world \<Rightarrow> (exn + unit) \<times> world" where
  "for_range 0 e interval s = (Inr (), s)"
| "for_range (Suc n) e interval s =
     (case rotation_cycle e interval s of
        (Inl x, s1) \<Rightarrow> (Inl x, s1)
      | (Inr new_ip, s1) \<Rightarrow> for_range n e interval s1)"

text \<open>
  \<^verbatim>\<open>while True\<close>: the loop has no exit of its own, so it is run for a given number of
  cycles (\<open>fuel\<close>); \<open>None\<close> says that it is still running after them.
\<close>

primrec while_true :: "nat \<Rightarrow> env \<Rightarrow> pyval \<Rightarrow> world \<Rightarrow> exn option \<times> world" where
  "while_true 0 e interval s = (None, s)"
| "while_true (Suc fuel) e interval s =
     (case rotation_cycle e interval s of
        (Inl x, s1) \<Rightarrow> (Some x, s1)
      | (Inr new_ip, s1) \<Rightarrow> while_true fuel e interval s1)"

text \<open>How a run of \<^verbatim>\<open>change_ip_repeatedly\<close> stands after at most \<open>fuel\<close> unbounded cycles.\<close>

datatype outcome = Returned | Raised exn | Running

definition change_ip_repeatedly :: "nat \<Rightarrow> env \<Rightarrow> pyval \<Rightarrow> int \<Rightarrow> world \<Rightarrow> outcome \<times> world" where
  "change_ip_repeatedly fuel e interval count s =
     (if count = 0 then
        (case while_true fuel e interval s of
           (None, s1) \<Rightarrow> (Running, s1)
         | (Some x, s1) \<Rightarrow> (Raised x, s1))
      else
        (case for_range (nat count) e interval s of
           (Inl x, s1) \<Rightarrow> (Raised x, s1)
         | (Inr u, s1) \<Rightarrow> (Returned, s1)))"

text \<open>
  \<^verbatim>\<open>parser.add_argument('--interval', type=str, default=60)\<close>: argparse applies
  \<^verbatim>\<open>type\<close> to a default only when the default is a string, so without the flag
  \<^verbatim>\<open>args.interval\<close> is the integer 60.
\<close>

definition interval_arg :: "pystr option \<Rightarrow> pyval" where
  "interval_arg given = (case given of None \<Rightarrow> PyInt 60 | Some a \<Rightarrow> PyStr a)"

section \<open>Process lifetime\<close>




section \<open>Reading a trace\<close>

definition count_events :: "(event \<Rightarrow> bool) \<Rightarrow> event list \<Rightarrow> nat" where
  "count_events P evs = length (filter P evs)"

text \<open>The commands by which the service is stopped: those of \<^verbatim>\<open>stop_tor_service\<close>.\<close>

definition is_stop :: "event \<Rightarrow> bool" where
  "is_stop ev =
     (case ev of
        Shell cmd \<Rightarrow>
          cmd \<in> set [''sudo systemctl stop tor'', ''taskkill /IM tor.exe /F'',
                     ''brew services stop tor'', ''sudo service tor stop'']
      | _ \<Rightarrow> False)"

definition is_cycle_sleep :: "event \<Rightarrow> bool" where
  "is_cycle_sleep ev = (case ev of Log Minor (SleepingFor t) \<Rightarrow> True | _ \<Rightarrow> False)"

definition is_report :: "event \<Rightarrow> bool" where
  "is_report ev = (case ev of Log Change (IpChanged ip) \<Rightarrow> True | _ \<Rightarrow> False)"

definition is_stale_warning :: "event \<Rightarrow> bool" where
  "is_stale_warning ev = (case ev of Log Warn (StaleCircuit a b) \<Rightarrow> True | _ \<Rightarrow> False)"

definition is_request :: "event \<Rightarrow> bool" where
  "is_request ev = (case ev of HttpGet p t \<Rightarrow> True | _ \<Rightarrow> False)"


text \<open>The events a run adds: those of \<open>s'\<close> beyond the ones already in \<open>s\<close>.\<close>

definition new_events :: "world \<Rightarrow> world \<Rightarrow> event list" where
  "new_events s s' = drop (length (trace s)) (trace s')"

text \<open>
  The first command by which \<^verbatim>\<open>reload_tor_service\<close> acts on this platform, and the
  command by which \<^verbatim>\<open>is_tor_running\<close> looks for the process.
\<close>

definition reload_command :: "env \<Rightarrow> string" where
  "reload_command e =
     (if docker_env e then ''pidof tor''
      else if arch_linux e then ''sudo systemctl reload tor''
      else if windows e then ''taskkill /IM tor.exe /F''
      else if macos e then ''brew services restart tor''
      else ''sudo service tor reload'')"

definition query_command :: "env \<Rightarrow> string" where
  "query_command e = (if windows e then ''tasklist'' else ''pgrep -x tor'')"

text \<open>
  The events by which the steps of a cycle are told: the announcement of the sleep (it
  carries \<^verbatim>\<open>sleep_time\<close>), the reload command, the query for the process, every HTTP
  request, and the report of an address.
\<close>

definition is_step :: "env \<Rightarrow> event \<Rightarrow> bool" where
  "is_step e ev =
     (is_cycle_sleep ev \<or> ev = Shell (reload_command e) \<or> ev = Shell (query_command e)
      \<or> is_request ev \<or> is_report ev)"

definition steps :: "env \<Rightarrow> event list \<Rightarrow> event list" where
  "steps e evs = filter (is_step e) evs"

text \<open>
  What a cycle does after it has slept, in this order: the reload command, the query
  for the process, two proxied requests when Tor is found running and one direct request
  otherwise, and the report when the address \<open>ip\<close> it resolved is not empty.
\<close>

definition cycle_steps :: "env \<Rightarrow> bool \<Rightarrow> pystr option \<Rightarrow> event list" where
  "cycle_steps e running ip =
     [Shell (reload_command e), Shell (query_command e)]
       @ (if running then [HttpGet TorCheck (Some 10), HttpGet TorCheck (Some 10)]
          else [HttpGet PlainEcho None])
       @ (if truthy ip then [Log Change (IpChanged ip)] else [])"

text \<open>
  The events of one complete cycle that resolved \<open>ip\<close>: the announcement of a duration,
  \<^verbatim>\<open>time.sleep\<close> of that duration, and then events whose steps are those above.
\<close>

definition cycle_of :: "env \<Rightarrow> pystr option \<Rightarrow> event list \<Rightarrow> bool" where
  "cycle_of e ip c =
     (\<exists>t running rest.
        c = Log Minor (SleepingFor t) # Sleep (nat t) # rest \<and> 0 \<le> t
        \<and> steps e rest = cycle_steps e running ip)"

definition is_cycle :: "env \<Rightarrow> event list \<Rightarrow> bool" where
  "is_cycle e c = (\<exists>ip. cycle_of e ip c)"

text \<open>A complete cycle whose resolution yielded no address: it has no report among its steps.\<close>

definition silent_cycle :: "env \<Rightarrow> event list \<Rightarrow> bool" where
  "silent_cycle e c = (\<exists>ip. \<not> truthy ip \<and> cycle_of e ip c)"

text \<open>What a proxied resolution returns when it is the \<open>k\<close>-th interaction.\<close>

definition resolution :: "env \<Rightarrow> nat \<Rightarrow> exn + pystr option" where
  "resolution e k = fst (ma_ip_tor e \<lparr>tick = k, clock = 0, trace = []\<rparr>)"

text \<open>The log lines a single proxied resolution can leave behind.\<close>

definition is_resolver_note :: "event \<Rightarrow> bool" where
  "is_resolver_note ev =
     (case ev of
        Log Warn (NotExitNode ip) \<Rightarrow> True
      | Log Error TorFetchFailed \<Rightarrow> True
      | _ \<Rightarrow> False)"

text \<open>An answer with one of the status codes that \<^verbatim>\<open>raise_for_status\<close> rejects.\<close>

definition is_error_status :: "nat \<Rightarrow> bool" where
  "is_error_status code = (400 \<le> code \<and> code < 600)"

definition tor_failed :: "tor_reply \<Rightarrow> bool" where
  "tor_failed a =
     (case a of TorUnreachable \<Rightarrow> True | TorResponse code b \<Rightarrow> is_error_status code)"

definition echo_failed :: "echo_reply \<Rightarrow> bool" where
  "echo_failed a =
     (case a of EchoUnreachable \<Rightarrow> True | EchoResponse code txt \<Rightarrow> is_error_status code)"

text \<open>The verification endpoint never answers with JSON that is not an object.\<close>

definition answers_objects :: "env \<Rightarrow> bool" where
  "answers_objects e = (\<forall>k code. tor_answer e k \<noteq> TorResponse code NonObject)"

text \<open>
  An interval specification as the code reads it: the pieces between dashes, of which
  only the first two are ever looked at.  It is accepted when it is a single number, or
  when its first two pieces are numbers \<open>lo \<le> hi\<close>.
\<close>

definition is_number :: "runtime \<Rightarrow> pystr \<Rightarrow> bool" where
  "is_number py p = (case int_of_str py p of Inl x \<Rightarrow> False | Inr n \<Rightarrow> True)"

definition valid_interval :: "runtime \<Rightarrow> pyval \<Rightarrow> bool" where
  "valid_interval py v =
     (case v of
        PyInt n \<Rightarrow> False
      | PyStr a \<Rightarrow>
          (case split_on dash a of
             [] \<Rightarrow> False
           | [p] \<Rightarrow> is_number py p
           | p # q # rest \<Rightarrow>
               (case int_of_str py p of
                  Inl x \<Rightarrow> False
                | Inr lo \<Rightarrow>
                    (case int_of_str py q of Inl x \<Rightarrow> False | Inr hi \<Rightarrow> lo \<le> hi))))"

text \<open>\<^verbatim>\<open>time.sleep\<close> accepts every duration that the interval can yield.\<close>

definition sleeps_accepted :: "env \<Rightarrow> pyval \<Rightarrow> bool" where
  "sleeps_accepted e interval =
     (\<forall>k r t. sleep_time (python e) interval r = Inr t \<longrightarrow> sleep_error e k t = None)"

text \<open>
  Waiting for the proxy: the time that \<open>j\<close> failed attempts, each followed by its pause
  of 2, take when the first of them is interaction \<open>k\<close>; and the events they leave.
\<close>

fun elapsed :: "env \<Rightarrow> nat \<Rightarrow> nat \<Rightarrow> nat" where
  "elapsed e k 0 = 0"
| "elapsed e k (Suc j) = connect_time e k + 2 + elapsed e (Suc k) j"

definition failed_rounds :: "nat \<Rightarrow> event list" where
  "failed_rounds j = concat (replicate j [SocksConnect 5 False, Sleep 2])"

section \<open>Sample environments\<close>

definition initial_world :: world where
  "initial_world = \<lparr>tick = 0, clock = 0, trace = []\<rparr>"

text \<open>
  CPython 3.11: the decimal digits of Unicode 14 (each entry is the code point of a
  zero, followed by the other nine digits of its script) and the limit of 4300 digits.
\<close>

definition decimal_zeros :: "codepoint list" where
  "decimal_zeros =
     [0x660, 0x6F0, 0x7C0, 0x966, 0x9E6, 0xA66, 0xAE6, 0xB66, 0xBE6, 0xC66, 0xCE6, 0xD66,
      0xDE6, 0xE50, 0xED0, 0xF20, 0x1040, 0x1090, 0x17E0, 0x1810, 0x1946, 0x19D0, 0x1A80,
      0x1A90, 0x1B50, 0x1BB0, 0x1C40, 0x1C50, 0xA620, 0xA8D0, 0xA900, 0xA9D0, 0xA9F0,
      0xAA50, 0xABF0, 0xFF10, 0x104A0, 0x10D30, 0x11066, 0x110F0, 0x11136, 0x111D0,
      0x112F0, 0x11450, 0x114D0, 0x11650, 0x116C0, 0x11730, 0x118E0, 0x11950, 0x11C50,
      0x11D50, 0x11DA0, 0x16A60, 0x16AC0, 0x16B50, 0x1D7CE, 0x1D7D8, 0x1D7E2, 0x1D7EC,
      0x1D7F6, 0x1E140, 0x1E2F0, 0x1E950, 0x1FBF0]"

definition unicode14_decimal :: "codepoint \<Rightarrow> nat option" where
  "unicode14_decimal c =
     (case filter (\<lambda>z. z \<le> c \<and> c < z + 10) decimal_zeros of
        [] \<Rightarrow> None
      | z # zs \<Rightarrow> Some (c - z))"

definition cpython311 :: runtime where
  "cpython311 = \<lparr>unicode_decimal = unicode14_decimal, max_str_digits = Some 4300\<rparr>"

text \<open>
  A Linux host with Tor running and answering with the same exit address.  Its
  \<^verbatim>\<open>time.sleep\<close> raises \<^verbatim>\<open>OverflowError\<close> when the nanoseconds do not fit 64 bits, and
  refuses a deadline close to that.
\<close>

definition linux_env :: env where
  "linux_env =
     \<lparr>python = cpython311,
      docker_env = False, arch_linux = False, windows = False, macos = False,
      pidof_tor = (\<lambda>k. None), tor_process = (\<lambda>k. True),
      tor_answer = (\<lambda>k. TorResponse 200 (Object (Some (ascii ''185.220.101.4'')) True)),
      echo_answer = (\<lambda>k. EchoResponse 200 (ascii ''203.0.113.9'')),
      entropy = (\<lambda>k. 7 * k + 3), connect_ok = (\<lambda>k. True), connect_time = (\<lambda>k. 1),
      sleep_error = (\<lambda>k t. if 9223372036 < t then Some OverflowError
                             else if 9223000000 < t then Some OSError else None)\<rparr>"

text \<open>The same host with the network down: nothing answers, nothing connects.\<close>

definition offline_env :: env where
  "offline_env =
     linux_env\<lparr>tor_answer := (\<lambda>k. TorUnreachable), echo_answer := (\<lambda>k. EchoUnreachable),
               connect_ok := (\<lambda>k. False)\<rparr>"

text \<open>A container in which no Tor process is found, with the network down.\<close>

definition docker_offline_env :: env where
  "docker_offline_env = offline_env\<lparr>docker_env := True, tor_process := (\<lambda>k. False)\<rparr>"




text \<open>Tor running; the first resolution fails, the second one answers.\<close>

definition flaky_env :: env where
  "flaky_env =
     linux_env\<lparr>tor_answer := (\<lambda>k. if k \<le> 1
        then TorUnreachable
        else TorResponse 200 (Object (Some (ascii ''45.66.33.45'')) True))\<rparr>"


text \<open>The proxy refuses the first two connection attempts and accepts the third.\<close>

definition slow_start_env :: env where
  "slow_start_env = linux_env\<lparr>connect_ok := (\<lambda>k. 2 \<le> k), connect_time := (\<lambda>k. 3)\<rparr>"

section \<open>Basic facts about effects\<close>

lemma trace_emit [simp]: "trace (emit ev s) = trace s @ [ev]"
  by (simp add: emit_def)

lemma tick_emit [simp]: "tick (emit ev s) = tick s"
  by (simp add: emit_def)

lemma clock_emit [simp]: "clock (emit ev s) = clock s"
  by (simp add: emit_def)

lemma trace_step [simp]: "trace (step s) = trace s"
  by (simp add: step_def)

lemma tick_step [simp]: "tick (step s) = tick s + 1"
  by (simp add: step_def)

lemma clock_step [simp]: "clock (step s) = clock s"
  by (simp add: step_def)

lemma trace_log [simp]: "trace (log sev m s) = trace s @ [Log sev m]"
  by (simp add: log_def)

lemma tick_log [simp]: "tick (log sev m s) = tick s"
  by (simp add: log_def)

lemma clock_log [simp]: "clock (log sev m s) = clock s"
  by (simp add: log_def)

lemma trace_shell [simp]: "trace (shell c s) = trace s @ [Shell c]"
  by (simp add: shell_def)

lemma tick_shell [simp]: "tick (shell c s) = tick s"
  by (simp add: shell_def)

lemma clock_shell [simp]: "clock (shell c s) = clock s"
  by (simp add: shell_def)

lemma trace_sleep_for [simp]: "trace (sleep_for n s) = trace s @ [Sleep n]"
  by (simp add: sleep_for_def)

lemma tick_sleep_for [simp]: "tick (sleep_for n s) = tick s"
  by (simp add: sleep_for_def)

lemma clock_sleep_for [simp]: "clock (sleep_for n s) = clock s + n"
  by (simp add: sleep_for_def)

lemma count_events_append [simp]:
  "count_events P (xs @ ys) = count_events P xs + count_events P ys"
  by (simp add: count_events_def)

lemma count_events_Nil [simp]: "count_events P [] = 0"
  by (simp add: count_events_def)

lemma count_events_Cons [simp]:
  "count_events P (x # xs) = (if P x then 1 else 0) + count_events P xs"
  by (simp add: count_events_def)

section \<open>Stopping the service\<close>

lemma is_stop_simps [simp]:
  "is_stop (Log sev m) = False" "is_stop PrintNewline = False" "is_stop (Sleep n) = False"
  "is_stop (HttpGet p t) = False" "is_stop (SocksConnect n b) = False"
  by (simp_all add: is_stop_def)








section \<open>The interval argument\<close>

lemma sleep_time_PyInt: "sleep_time py (PyInt n) r = Inl AttributeError"
  by (simp add: sleep_time_def sleep_time_try_def py_split_dash_def)

lemma rotation_cycle_raises:
  "sleep_time (python e) interval (entropy e (tick s)) = Inl x \<Longrightarrow>
   rotation_cycle e interval s = (Inl x, s)"
  by (simp add: rotation_cycle_def)

lemma change_ip_repeatedly_raises:
  assumes "\<And>r. sleep_time (python e) interval r = Inl x" and "0 \<le> count" and "0 < fuel"
  shows "change_ip_repeatedly fuel e interval count s = (Raised x, s)"
proof (cases "count = 0")
  case True
  from assms(3) obtain k where "fuel = Suc k"
    by (cases fuel) auto
  with True show ?thesis
    by (simp add: change_ip_repeatedly_def rotation_cycle_raises assms(1))
next
  case False
  with assms(2) obtain m where "nat count = Suc m"
    by (cases "nat count") auto
  with False show ?thesis
    by (simp add: change_ip_repeatedly_def rotation_cycle_raises assms(1))
qed

text \<open>
  Claim C9.  Without \<^verbatim>\<open>--interval\<close> argparse hands over the integer 60, and for an
  integer interval the first cycle raises \<^verbatim>\<open>AttributeError\<close> (from \<^verbatim>\<open>interval.split\<close>;
  the handler catches \<^verbatim>\<open>IndexError\<close> only) before anything is logged or slept: the
  world is unchanged.  This holds for a bounded run and for the unbounded one.
\<close>

theorem default_interval_raises:
  "0 \<le> count \<Longrightarrow> 0 < fuel \<Longrightarrow>
   interval_arg None = PyInt 60
   \<and> sleep_time py (PyInt n) r = Inl AttributeError
   \<and> change_ip_repeatedly fuel e (PyInt n) count s = (Raised AttributeError, s)"
  by (simp add: interval_arg_def sleep_time_PyInt change_ip_repeatedly_raises)

theorem default_interval_raises_witness:
  "(0::int) \<le> 10 \<and> (0::nat) < 1
   \<and> change_ip_repeatedly 1 linux_env (interval_arg None) 10 initial_world
       = (Raised AttributeError, initial_world)"
proof -
  have a: "(0::int) \<le> 10" and b: "(0::nat) < 1"
    by simp_all
  show ?thesis
    using default_interval_raises [OF a b, where n = 60 and e = linux_env and s = initial_world]
    by simp
qed

section \<open>Resolving the address\<close>

lemma ma_ip_tor_failed: "tor_failed (tor_answer e (tick s)) \<Longrightarrow> fst (ma_ip_tor e s) = Inr None"
  by (simp add: ma_ip_tor_def ma_ip_tor_try_def raise_for_status_def Let_def tor_failed_def
      is_error_status_def split: tor_reply.splits body.splits)

lemma ma_ip_normal_failed:
  "echo_failed (echo_answer e (tick s)) \<Longrightarrow> fst (ma_ip_normal e s) = Inr None"
  by (auto simp: ma_ip_normal_def ma_ip_normal_try_def raise_for_status_def Let_def
      echo_failed_def is_error_status_def split: echo_reply.splits)



text \<open>
  An answer that decodes to something other than an object is not absorbed: the
  \<^verbatim>\<open>AttributeError\<close> of \<^verbatim>\<open>data.get\<close> leaves \<^verbatim>\<open>ma_ip_tor\<close>.
\<close>

lemma ma_ip_tor_non_object:
  "tor_answer e (tick s) = TorResponse code NonObject \<Longrightarrow> \<not> is_error_status code \<Longrightarrow>
   fst (ma_ip_tor e s) = Inl AttributeError"
  by (auto simp: ma_ip_tor_def ma_ip_tor_try_def raise_for_status_def Let_def
      is_error_status_def)







lemma ma_ip_tor_result: "fst (ma_ip_tor e s) = resolution e (tick s)"
  by (simp add: resolution_def ma_ip_tor_def ma_ip_tor_try_def raise_for_status_def Let_def
      split: tor_reply.splits body.splits)

lemma ma_ip_tor_tick: "tick (snd (ma_ip_tor e s)) = tick s + 1"
  by (simp add: ma_ip_tor_def ma_ip_tor_try_def raise_for_status_def Let_def
      split: tor_reply.splits body.splits)

lemma ma_ip_tor_trace:
  "\<exists>notes. trace (snd (ma_ip_tor e s)) = trace s @ HttpGet TorCheck (Some 10) # notes
           \<and> list_all is_resolver_note notes"
  by (simp add: ma_ip_tor_def ma_ip_tor_try_def raise_for_status_def Let_def is_resolver_note_def
      split: tor_reply.splits body.splits)

lemma ma_ip_running:
  assumes run: "tor_process e (tick s)"
    and r1: "resolution e (tick s + 1) = Inr ip1"
    and r2: "resolution e (tick s + 2) = Inr ip2"
  shows "\<exists>n1 n2. fst (ma_ip e s) = Inr (if truthy ip2 then ip2 else ip1)
           \<and> trace (snd (ma_ip e s)) =
               trace s @ [Log Info FetchingIp, Shell (if windows e then ''tasklist'' else ''pgrep -x tor''),
                          HttpGet TorCheck (Some 10)] @ n1
                 @ [Sleep 5, HttpGet TorCheck (Some 10)] @ n2
                 @ (if truthy ip1 \<and> truthy ip2 \<and> ip1 \<noteq> ip2
                    then [Log Warn (StaleCircuit ip1 ip2)] else [])
           \<and> list_all is_resolver_note n1 \<and> list_all is_resolver_note n2"
proof -
  define s1 where "s1 = shell (if windows e then ''tasklist'' else ''pgrep -x tor'') (step (log Info FetchingIp s))"
  have run1: "is_tor_running e (log Info FetchingIp s) = (True, s1)"
    using run by (simp add: is_tor_running_def s1_def)
  have t1: "tick s1 = tick s + 1" by (simp add: s1_def)
  obtain s2 where m1: "ma_ip_tor e s1 = (Inr ip1, s2)"
    using ma_ip_tor_result [of e s1] r1 t1 by (cases "ma_ip_tor e s1") simp
  have t2: "tick s2 = tick s + 2"
    using ma_ip_tor_tick [of e s1] m1 t1 by simp
  obtain n1 where n1: "trace s2 = trace s1 @ HttpGet TorCheck (Some 10) # n1" "list_all is_resolver_note n1"
    using ma_ip_tor_trace [of e s1] m1 by auto
  obtain s4 where m2: "ma_ip_tor e (sleep_for 5 s2) = (Inr ip2, s4)"
    using ma_ip_tor_result [of e "sleep_for 5 s2"] r2 t2 by (cases "ma_ip_tor e (sleep_for 5 s2)") simp
  obtain n2 where n2: "trace s4 = trace (sleep_for 5 s2) @ HttpGet TorCheck (Some 10) # n2" "list_all is_resolver_note n2"
    using ma_ip_tor_trace [of e "sleep_for 5 s2"] m2 by auto
  have eq: "ma_ip e s = (Inr (if truthy ip2 then ip2 else ip1),
                 if truthy ip1 \<and> truthy ip2 \<and> ip1 \<noteq> ip2
                 then log Warn (StaleCircuit ip1 ip2) s4 else s4)"
    by (simp add: ma_ip_def run1 m1 m2)
  have ts1: "trace s1 = trace s @ [Log Info FetchingIp, Shell (if windows e then ''tasklist'' else ''pgrep -x tor'')]"
    by (simp add: s1_def)
  have "fst (ma_ip e s) = Inr (if truthy ip2 then ip2 else ip1)"
    by (simp add: eq)
  moreover have "trace (snd (ma_ip e s)) =
               trace s @ [Log Info FetchingIp, Shell (if windows e then ''tasklist'' else ''pgrep -x tor''),
                          HttpGet TorCheck (Some 10)] @ n1
                 @ [Sleep 5, HttpGet TorCheck (Some 10)] @ n2
                 @ (if truthy ip1 \<and> truthy ip2 \<and> ip1 \<noteq> ip2
                    then [Log Warn (StaleCircuit ip1 ip2)] else [])"
    by (simp add: eq n1(1) n2(1) ts1)
  ultimately show ?thesis using n1(2) n2(2) by blast
qed


lemma note_not_stale: "is_resolver_note ev \<Longrightarrow> \<not> is_stale_warning ev"
  by (cases ev)
     (auto simp: is_resolver_note_def is_stale_warning_def split: severity.splits message.splits)


lemma notes_no_stale: "list_all is_resolver_note ns \<Longrightarrow> filter is_stale_warning ns = []"
  by (induction ns) (simp_all add: note_not_stale)

lemma new_events_append [simp]: "trace s' = trace s @ evs \<Longrightarrow> new_events s s' = evs"
  by (simp add: new_events_def)




text \<open>
  Claim C10.  When exactly one of the two resolutions yields an address, the results
  differ, no staleness warning is logged, and the one address is returned.  A staleness
  warning is logged if and only if both results are non-empty and unequal.
\<close>

theorem ma_ip_one_result_missing:
  assumes "tor_process e (tick s)"
    and "resolution e (tick s + 1) = Inr ip1"
    and "resolution e (tick s + 2) = Inr ip2"
  shows "(truthy ip1 \<and> \<not> truthy ip2 \<longrightarrow>
            ip1 \<noteq> ip2 \<and> fst (ma_ip e s) = Inr ip1
            \<and> filter is_stale_warning (new_events s (snd (ma_ip e s))) = [])
     \<and> (\<not> truthy ip1 \<and> truthy ip2 \<longrightarrow>
            ip1 \<noteq> ip2 \<and> fst (ma_ip e s) = Inr ip2
            \<and> filter is_stale_warning (new_events s (snd (ma_ip e s))) = [])
     \<and> (filter is_stale_warning (new_events s (snd (ma_ip e s))) \<noteq> []
            \<longleftrightarrow> truthy ip1 \<and> truthy ip2 \<and> ip1 \<noteq> ip2)"
proof -
  obtain n1 n2 where res: "fst (ma_ip e s) = Inr (if truthy ip2 then ip2 else ip1)"
    and tr: "trace (snd (ma_ip e s)) =
               trace s @ [Log Info FetchingIp, Shell (if windows e then ''tasklist'' else ''pgrep -x tor''),
                          HttpGet TorCheck (Some 10)] @ n1
                 @ [Sleep 5, HttpGet TorCheck (Some 10)] @ n2
                 @ (if truthy ip1 \<and> truthy ip2 \<and> ip1 \<noteq> ip2
                    then [Log Warn (StaleCircuit ip1 ip2)] else [])"
    and ns: "list_all is_resolver_note n1" "list_all is_resolver_note n2"
    using ma_ip_running [OF assms] by blast
  note ne = new_events_append [OF tr]
  have b: "filter is_stale_warning (new_events s (snd (ma_ip e s)))
           = (if truthy ip1 \<and> truthy ip2 \<and> ip1 \<noteq> ip2 then [Log Warn (StaleCircuit ip1 ip2)] else [])"
    by (simp add: ne notes_no_stale [OF ns(1)] notes_no_stale [OF ns(2)] is_stale_warning_def)
  show ?thesis using b res by auto
qed

theorem ma_ip_one_result_missing_witness:
  "tor_process flaky_env (tick initial_world)
   \<and> resolution flaky_env (tick initial_world + 1) = Inr None
   \<and> resolution flaky_env (tick initial_world + 2) = Inr (Some (ascii ''45.66.33.45''))
   \<and> fst (ma_ip flaky_env initial_world) = Inr (Some (ascii ''45.66.33.45''))
   \<and> filter is_stale_warning (new_events initial_world (snd (ma_ip flaky_env initial_world))) = []"
proof -
  have a: "tor_process flaky_env (tick initial_world)"
    by (simp add: flaky_env_def linux_env_def)
  have b: "resolution flaky_env (tick initial_world + 1) = Inr None"
    by (simp add: resolution_def ma_ip_tor_def ma_ip_tor_try_def raise_for_status_def
        flaky_env_def linux_env_def initial_world_def)
  have c: "resolution flaky_env (tick initial_world + 2) = Inr (Some (ascii ''45.66.33.45''))"
    by (simp add: resolution_def ma_ip_tor_def ma_ip_tor_try_def raise_for_status_def
        flaky_env_def linux_env_def initial_world_def)
  show ?thesis
    using a b c ma_ip_one_result_missing [OF a b c] by (simp add: truthy_def ascii_def)
qed

section \<open>Waiting for the proxy\<close>

lemma wait_loop_shape:
  "\<exists>k. trace (snd (wait_loop e st t s)) =
          trace s @ concat (replicate k [SocksConnect 5 False, Sleep 2])
            @ (if fst (wait_loop e st t s) then [SocksConnect 5 True, Log Success SocksResponding]
               else [Log Error SocksTimedOut])
      \<and> (fst (wait_loop e st t s) \<longrightarrow> int (clock s) + 2 * int k - int st < int t)
      \<and> (\<not> fst (wait_loop e st t s) \<longrightarrow>
            (k = 0 \<or> int (clock s) + 2 * (int k - 1) - int st < int t)
            \<and> int t \<le> int (clock (snd (wait_loop e st t s))) - int st)"
proof (induction e st t s rule: wait_loop.induct)
  case (1 e start timeout s)
  show ?case
  proof (cases "int (clock s) - int start < int timeout")
    case False
    then show ?thesis
      by (intro exI [of _ 0]) (simp add: wait_loop.simps [of e start timeout s])
  next
    case True
    show ?thesis
    proof (cases "connect_ok e (tick s)")
      case ok: True
      with True show ?thesis
        by (intro exI [of _ 0])
           (simp add: wait_loop.simps [of e start timeout s] socks_attempt_def)
    next
      case bad: False
      define s2 where "s2 = sleep_for 2 (socks_attempt e s)"
      have eq: "wait_loop e start timeout s = wait_loop e start timeout s2"
        using True bad by (simp add: wait_loop.simps [of e start timeout s] s2_def)
      have tr2: "trace s2 = trace s @ [SocksConnect 5 False, Sleep 2]"
        using bad by (simp add: s2_def socks_attempt_def)
      have cl2: "clock s2 = clock s + connect_time e (tick s) + 2"
        by (simp add: s2_def socks_attempt_def)
      from 1 [OF True bad] obtain k where
        sh: "trace (snd (wait_loop e start timeout s2)) =
               trace s2 @ concat (replicate k [SocksConnect 5 False, Sleep 2])
                 @ (if fst (wait_loop e start timeout s2)
                    then [SocksConnect 5 True, Log Success SocksResponding]
                    else [Log Error SocksTimedOut])"
        and ok: "fst (wait_loop e start timeout s2) \<longrightarrow>
                   int (clock s2) + 2 * int k - int start < int timeout"
        and no: "\<not> fst (wait_loop e start timeout s2) \<longrightarrow>
                   (k = 0 \<or> int (clock s2) + 2 * (int k - 1) - int start < int timeout)
                   \<and> int timeout \<le> int (clock (snd (wait_loop e start timeout s2))) - int start"
        unfolding s2_def by blast
      have a: "trace (snd (wait_loop e start timeout s)) =
          trace s @ concat (replicate (Suc k) [SocksConnect 5 False, Sleep 2])
            @ (if fst (wait_loop e start timeout s)
               then [SocksConnect 5 True, Log Success SocksResponding]
               else [Log Error SocksTimedOut])"
        unfolding eq sh tr2 by simp
      have b: "fst (wait_loop e start timeout s) \<longrightarrow>
                 int (clock s) + 2 * int (Suc k) - int start < int timeout"
        unfolding eq using ok cl2 by auto
      have c: "\<not> fst (wait_loop e start timeout s) \<longrightarrow>
            (Suc k = 0 \<or> int (clock s) + 2 * (int (Suc k) - 1) - int start < int timeout)
            \<and> int timeout \<le> int (clock (snd (wait_loop e start timeout s))) - int start"
        unfolding eq using no cl2 True by auto
      from a b c show ?thesis by blast
    qed
  qed
qed

lemma elapsed_Suc: "elapsed e k (Suc j) = elapsed e k j + (connect_time e (k + j) + 2)"
  by (induction j arbitrary: k) simp_all

lemma wait_loop_success:
  assumes "\<forall>i<j. \<not> connect_ok e (tick s + i)" and "connect_ok e (tick s + j)"
    and "int (clock s) + int (elapsed e (tick s) j) - int start < int timeout"
  shows "wait_loop e start timeout s =
           (True, \<lparr>tick = tick s + j + 1,
                   clock = clock s + elapsed e (tick s) j + connect_time e (tick s + j),
                   trace = trace s @ failed_rounds j
                             @ [SocksConnect 5 True, Log Success SocksResponding]\<rparr>)"
  using assms
proof (induction j arbitrary: s)
  case 0
  then show ?case
    by (simp add: wait_loop.simps [of e start timeout s] socks_attempt_def log_def emit_def
        failed_rounds_def)
next
  case (Suc j)
  define s2 where "s2 = sleep_for 2 (socks_attempt e s)"
  have bad: "\<not> connect_ok e (tick s)"
    using Suc.prems(1) by (metis add.right_neutral zero_less_Suc)
  have cond: "int (clock s) - int start < int timeout"
    using Suc.prems(3) by simp
  have eq: "wait_loop e start timeout s = wait_loop e start timeout s2"
    using bad cond by (simp add: wait_loop.simps [of e start timeout s] s2_def)
  have t2: "tick s2 = Suc (tick s)" and c2: "clock s2 = clock s + connect_time e (tick s) + 2"
    and tr2: "trace s2 = trace s @ [SocksConnect 5 False, Sleep 2]"
    using bad by (simp_all add: s2_def socks_attempt_def)
  have a1: "\<forall>i<j. \<not> connect_ok e (tick s2 + i)"
    using Suc.prems(1) by (simp add: t2) (metis Suc_less_eq add_Suc_right)
  have a2: "connect_ok e (tick s2 + j)"
    using Suc.prems(2) by (simp add: t2)
  have a3: "int (clock s2) + int (elapsed e (tick s2) j) - int start < int timeout"
    using Suc.prems(3) by (simp add: t2 c2)
  show ?case
    unfolding eq Suc.IH [OF a1 a2 a3]
    by (simp add: t2 c2 tr2 failed_rounds_def)
qed

lemma wait_loop_timeout:
  assumes "\<forall>i<j. \<not> connect_ok e (tick s + i)"
    and "\<forall>i<j. int (clock s) + int (elapsed e (tick s) i) - int start < int timeout"
    and "int timeout \<le> int (clock s) + int (elapsed e (tick s) j) - int start"
  shows "wait_loop e start timeout s =
           (False, \<lparr>tick = tick s + j, clock = clock s + elapsed e (tick s) j,
                    trace = trace s @ failed_rounds j @ [Log Error SocksTimedOut]\<rparr>)"
  using assms
proof (induction j arbitrary: s)
  case 0
  then show ?case
    by (simp add: wait_loop.simps [of e start timeout s] log_def emit_def failed_rounds_def)
next
  case (Suc j)
  define s2 where "s2 = sleep_for 2 (socks_attempt e s)"
  have bad: "\<not> connect_ok e (tick s)"
    using Suc.prems(1) by (metis add.right_neutral zero_less_Suc)
  have cond: "int (clock s) - int start < int timeout"
    using Suc.prems(2) by (metis add.right_neutral elapsed.simps(1) of_nat_0 zero_less_Suc)
  have eq: "wait_loop e start timeout s = wait_loop e start timeout s2"
    using bad cond by (simp add: wait_loop.simps [of e start timeout s] s2_def)
  have t2: "tick s2 = Suc (tick s)" and c2: "clock s2 = clock s + connect_time e (tick s) + 2"
    and tr2: "trace s2 = trace s @ [SocksConnect 5 False, Sleep 2]"
    using bad by (simp_all add: s2_def socks_attempt_def)
  have a1: "\<forall>i<j. \<not> connect_ok e (tick s2 + i)"
    using Suc.prems(1) by (simp add: t2) (metis Suc_less_eq add_Suc_right)
  have a2: "\<forall>i<j. int (clock s2) + int (elapsed e (tick s2) i) - int start < int timeout"
  proof (intro allI impI)
    fix i assume "i < j"
    then have "Suc i < Suc j"
      by simp
    from Suc.prems(2) [rule_format, OF this]
    show "int (clock s2) + int (elapsed e (tick s2) i) - int start < int timeout"
      by (simp add: t2 c2)
  qed
  have a3: "int timeout \<le> int (clock s2) + int (elapsed e (tick s2) j) - int start"
    using Suc.prems(3) by (simp add: t2 c2)
  show ?case
    unfolding eq Suc.IH [OF a1 a2 a3]
    by (simp add: t2 c2 tr2 failed_rounds_def)
qed

text \<open>
  Claim C8.  \<^verbatim>\<open>wait_for_tor\<close> always returns (the function is total), and what it does
  is decided by the attempts.  Let the first \<open>j\<close> attempts fail.  If the next one
  succeeds and starts before the timeout has elapsed, the result is \<^verbatim>\<open>True\<close> at once:
  there were exactly \<open>j\<close> rounds of a failed attempt with sub-timeout 5 followed by
  \<^verbatim>\<open>time.sleep(2)\<close>, then the successful attempt with sub-timeout 5, and the clock has
  advanced by the time the attempts took plus 2 for every failure.  If instead the
  timeout has elapsed after these \<open>j\<close> rounds and not before, the result is \<^verbatim>\<open>False\<close>
  with no further attempt.  In every case the number of failed rounds is bounded by the
  timeout, and \<^verbatim>\<open>False\<close> is returned only when the timeout has elapsed.
\<close>

theorem wait_for_tor_bounded:
  "\<forall>i<j. \<not> connect_ok e (tick s + i) \<Longrightarrow>
   (connect_ok e (tick s + j) \<and> elapsed e (tick s) j < timeout \<longrightarrow>
      wait_for_tor e timeout s =
        (True, \<lparr>tick = tick s + j + 1,
                clock = clock s + elapsed e (tick s) j + connect_time e (tick s + j),
                trace = trace s @ Log Info (WaitingForTor timeout) # failed_rounds j
                          @ [SocksConnect 5 True, Log Success SocksResponding]\<rparr>))
   \<and> ((\<forall>i<j. elapsed e (tick s) i < timeout) \<and> timeout \<le> elapsed e (tick s) j \<longrightarrow>
      wait_for_tor e timeout s =
        (False, \<lparr>tick = tick s + j, clock = clock s + elapsed e (tick s) j,
                 trace = trace s @ Log Info (WaitingForTor timeout) # failed_rounds j
                           @ [Log Error SocksTimedOut]\<rparr>))
   \<and> (\<exists>k. new_events s (snd (wait_for_tor e timeout s)) =
              Log Info (WaitingForTor timeout) # failed_rounds k
                @ (if fst (wait_for_tor e timeout s)
                   then [SocksConnect 5 True, Log Success SocksResponding]
                   else [Log Error SocksTimedOut])
          \<and> (fst (wait_for_tor e timeout s) \<longrightarrow> 2 * k < timeout)
          \<and> (\<not> fst (wait_for_tor e timeout s) \<longrightarrow>
                2 * k < timeout + 2
                \<and> clock s + timeout \<le> clock (snd (wait_for_tor e timeout s))))"
proof -
  assume fails: "\<forall>i<j. \<not> connect_ok e (tick s + i)"
  define s0 where "s0 = log Info (WaitingForTor timeout) s"
  have w: "wait_for_tor e timeout s = wait_loop e (clock s) timeout s0"
    by (simp add: wait_for_tor_def s0_def)
  have k0: "tick s0 = tick s" and c0: "clock s0 = clock s"
    and t0: "trace s0 = trace s @ [Log Info (WaitingForTor timeout)]"
    by (simp_all add: s0_def)
  have a: "wait_for_tor e timeout s =
        (True, \<lparr>tick = tick s + j + 1,
                clock = clock s + elapsed e (tick s) j + connect_time e (tick s + j),
                trace = trace s @ Log Info (WaitingForTor timeout) # failed_rounds j
                          @ [SocksConnect 5 True, Log Success SocksResponding]\<rparr>)"
    if "connect_ok e (tick s + j)" "elapsed e (tick s) j < timeout"
  proof -
    have "wait_loop e (clock s) timeout s0 =
           (True, \<lparr>tick = tick s0 + j + 1,
                   clock = clock s0 + elapsed e (tick s0) j + connect_time e (tick s0 + j),
                   trace = trace s0 @ failed_rounds j
                             @ [SocksConnect 5 True, Log Success SocksResponding]\<rparr>)"
      using fails that by (intro wait_loop_success) (simp_all add: k0 c0)
    then show ?thesis
      by (simp add: w k0 c0 t0)
  qed
  have b: "wait_for_tor e timeout s =
        (False, \<lparr>tick = tick s + j, clock = clock s + elapsed e (tick s) j,
                 trace = trace s @ Log Info (WaitingForTor timeout) # failed_rounds j
                           @ [Log Error SocksTimedOut]\<rparr>)"
    if "\<forall>i<j. elapsed e (tick s) i < timeout" "timeout \<le> elapsed e (tick s) j"
  proof -
    have "wait_loop e (clock s) timeout s0 =
           (False, \<lparr>tick = tick s0 + j, clock = clock s0 + elapsed e (tick s0) j,
                    trace = trace s0 @ failed_rounds j @ [Log Error SocksTimedOut]\<rparr>)"
      using fails that by (intro wait_loop_timeout) (simp_all add: k0 c0)
    then show ?thesis
      by (simp add: w k0 c0 t0)
  qed
  from wait_loop_shape [of e "clock s" timeout s0] obtain k where
    sh: "trace (snd (wait_loop e (clock s) timeout s0)) =
          trace s0 @ concat (replicate k [SocksConnect 5 False, Sleep 2])
            @ (if fst (wait_loop e (clock s) timeout s0)
               then [SocksConnect 5 True, Log Success SocksResponding]
               else [Log Error SocksTimedOut])"
    and ok: "fst (wait_loop e (clock s) timeout s0) \<longrightarrow>
               int (clock s0) + 2 * int k - int (clock s) < int timeout"
    and no: "\<not> fst (wait_loop e (clock s) timeout s0) \<longrightarrow>
               (k = 0 \<or> int (clock s0) + 2 * (int k - 1) - int (clock s) < int timeout)
               \<and> int timeout \<le> int (clock (snd (wait_loop e (clock s) timeout s0))) - int (clock s)"
    by blast
  have c1: "new_events s (snd (wait_for_tor e timeout s)) =
          Log Info (WaitingForTor timeout) # failed_rounds k
            @ (if fst (wait_for_tor e timeout s)
               then [SocksConnect 5 True, Log Success SocksResponding]
               else [Log Error SocksTimedOut])"
    unfolding w new_events_def sh t0 failed_rounds_def by simp
  have c2: "fst (wait_for_tor e timeout s) \<longrightarrow> 2 * k < timeout"
    unfolding w using ok c0 by auto
  have c3: "\<not> fst (wait_for_tor e timeout s) \<longrightarrow>
            2 * k < timeout + 2 \<and> clock s + timeout \<le> clock (snd (wait_for_tor e timeout s))"
    unfolding w using no c0 by auto
  from a b c1 c2 c3 show ?thesis by blast
qed

theorem wait_for_tor_bounded_witness:
  "connect_ok slow_start_env (tick initial_world + 2)
   \<and> elapsed slow_start_env (tick initial_world) 2 < 30
   \<and> wait_for_tor slow_start_env 30 initial_world =
       (True, \<lparr>tick = 3, clock = 13,
               trace = [Log Info (WaitingForTor 30), SocksConnect 5 False, Sleep 2,
                        SocksConnect 5 False, Sleep 2, SocksConnect 5 True,
                        Log Success SocksResponding]\<rparr>)
   \<and> 7 \<le> elapsed offline_env (tick initial_world) 3
   \<and> wait_for_tor offline_env 7 initial_world =
       (False, \<lparr>tick = 3, clock = 9,
                trace = [Log Info (WaitingForTor 7), SocksConnect 5 False, Sleep 2,
                         SocksConnect 5 False, Sleep 2, SocksConnect 5 False, Sleep 2,
                         Log Error SocksTimedOut]\<rparr>)"
proof -
  have w0: "tick initial_world = 0" "clock initial_world = 0" "trace initial_world = []"
    by (simp_all add: initial_world_def)
  have el_slow: "elapsed slow_start_env k i = 5 * i" for k i
    by (induction i arbitrary: k) (simp_all add: slow_start_env_def linux_env_def)
  have el_off: "elapsed offline_env k i = 3 * i" for k i
    by (induction i arbitrary: k) (simp_all add: offline_env_def linux_env_def)
  have fr2: "failed_rounds 2 = [SocksConnect 5 False, Sleep 2, SocksConnect 5 False, Sleep 2]"
    by (simp add: failed_rounds_def numeral_2_eq_2)
  have fr3: "failed_rounds 3 = [SocksConnect 5 False, Sleep 2, SocksConnect 5 False, Sleep 2,
                               SocksConnect 5 False, Sleep 2]"
    by (simp add: failed_rounds_def numeral_3_eq_3)
  have ct: "connect_time slow_start_env k = 3" and ok: "connect_ok slow_start_env k = (2 \<le> k)" for k
    by (simp_all add: slow_start_env_def linux_env_def)
  have f1: "\<forall>i<2. \<not> connect_ok slow_start_env (tick initial_world + i)"
    by (simp add: slow_start_env_def linux_env_def w0)
  have g1: "connect_ok slow_start_env (tick initial_world + 2)"
    by (simp add: slow_start_env_def linux_env_def)
  have h1: "elapsed slow_start_env (tick initial_world) 2 < 30"
    by (simp add: el_slow)
  have A: "wait_for_tor slow_start_env 30 initial_world =
        (True, \<lparr>tick = tick initial_world + 2 + 1,
                clock = clock initial_world + elapsed slow_start_env (tick initial_world) 2
                          + connect_time slow_start_env (tick initial_world + 2),
                trace = trace initial_world @ Log Info (WaitingForTor 30) # failed_rounds 2
                          @ [SocksConnect 5 True, Log Success SocksResponding]\<rparr>)"
    using wait_for_tor_bounded [OF f1, of 30] g1 h1 by blast
  have f2: "\<forall>i<3. \<not> connect_ok offline_env (tick initial_world + i)"
    by (simp add: offline_env_def linux_env_def)
  have g2: "\<forall>i<3. elapsed offline_env (tick initial_world) i < 7"
    by (auto simp: el_off)
  have h2: "7 \<le> elapsed offline_env (tick initial_world) 3"
    by (simp add: el_off)
  have B: "wait_for_tor offline_env 7 initial_world =
        (False, \<lparr>tick = tick initial_world + 3,
                 clock = clock initial_world + elapsed offline_env (tick initial_world) 3,
                 trace = trace initial_world @ Log Info (WaitingForTor 7) # failed_rounds 3
                           @ [Log Error SocksTimedOut]\<rparr>)"
    using wait_for_tor_bounded [OF f2, of 7] g2 h2 by blast
  show ?thesis
    by (simp add: A B w0 el_slow el_off fr2 fr3 ct ok)
qed

section \<open>Splitting, parsing and the sleep duration\<close>

lemma split_on_not_Nil [simp]: "split_on c s \<noteq> []"
  by (induction s) (auto split: list.splits)

lemma split_on_no_sep: "c \<notin> set s \<Longrightarrow> split_on c s = [s]"
  by (induction s) auto

lemma split_on_sep: "c \<notin> set a \<Longrightarrow> split_on c (a @ c # rest) = a # split_on c rest"
  by (induction a) auto

lemma split_on_pieces: "p \<in> set (split_on c s) \<Longrightarrow> c \<notin> set p"
proof (induction s arbitrary: p)
  case Nil
  then show ?case by simp
next
  case (Cons x xs)
  then show ?case
    by (cases "split_on c xs") (auto split: if_splits)
qed

lemma split_on_single: "split_on c s = [p] \<Longrightarrow> p = s"
proof (induction s arbitrary: p)
  case Nil
  then show ?case by simp
next
  case (Cons x xs)
  then show ?case
    by (cases "split_on c xs") (auto split: if_splits)
qed

lemma set_strip: "set (strip s) \<subseteq> set s"
proof -
  have "set (strip s) \<subseteq> set (rev (dropWhile is_space s))"
    unfolding strip_def using set_dropWhileD by fastforce
  also have "\<dots> \<subseteq> set s"
    using set_dropWhileD by fastforce
  finally show ?thesis .
qed

lemma to_ascii_dash: "to_ascii py c = Some x \<Longrightarrow> c \<noteq> 45 \<Longrightarrow> x \<noteq> 45"
  by (auto simp: to_ascii_def split: if_splits option.splits)

lemma transform_dash: "transform py a = Some b \<Longrightarrow> 45 \<notin> set a \<Longrightarrow> 45 \<notin> set b"
proof (induction a arbitrary: b)
  case Nil
  then show ?case by simp
next
  case (Cons c cs)
  then show ?case
    by (auto split: option.splits dest: to_ascii_dash)
qed

lemma int_of_str_error: "int_of_str py s = Inl x \<Longrightarrow> x = ValueError"
  by (auto simp: int_of_str_def split: option.splits if_splits)

lemma int_of_str_nonneg:
  assumes "dash \<notin> set s" and "int_of_str py s = Inr d"
  shows "0 \<le> d"
proof -
  from assms(2) obtain b n where tr: "transform py s = Some b"
    and sl: "signed_literal (strip b) = Some n" and "n = d"
    by (auto simp: int_of_str_def split: option.splits if_splits)
  from assms(1) have "45 \<notin> set b"
    using transform_dash [OF tr] by (simp add: dash_def)
  with set_strip have nd: "45 \<notin> set (strip b)" by blast
  from sl nd have "0 \<le> n"
    by (cases "strip b") (auto simp: signed_literal_def split: if_splits)
  with \<open>n = d\<close> show ?thesis by simp
qed

text \<open>What the code makes of the pieces of the interval.\<close>

lemma sleep_time_one_piece:
  "split_on dash a = [p] \<Longrightarrow> sleep_time py (PyStr a) r = int_of_str py a"
proof -
  assume sp: "split_on dash a = [p]"
  then have "p = a" by (rule split_on_single)
  with sp show ?thesis
    by (cases "int_of_str py a")
       (auto simp: sleep_time_def sleep_time_try_def py_split_dash_def item_def py_int_def
          dest: int_of_str_error)
qed

lemma sleep_time_two_pieces:
  "split_on dash a = p # q # rest \<Longrightarrow>
   sleep_time py (PyStr a) r =
     (case int_of_str py p of
        Inl x \<Rightarrow> Inl ValueError
      | Inr lo \<Rightarrow>
          (case int_of_str py q of Inl x \<Rightarrow> Inl ValueError | Inr hi \<Rightarrow> randint lo hi r))"
  by (cases "int_of_str py p"; cases "int_of_str py q")
     (auto simp: sleep_time_def sleep_time_try_def py_split_dash_def item_def randint_def
        dest: int_of_str_error)

lemma sleep_time_fixed:
  "dash \<notin> set a \<Longrightarrow> sleep_time py (PyStr a) r = int_of_str py a"
  using sleep_time_one_piece [OF split_on_no_sep] .

lemma sleep_time_range:
  assumes "dash \<notin> set a" and "dash \<notin> set b"
  shows "sleep_time py (PyStr (a @ [dash] @ b)) r =
           (case int_of_str py a of
              Inl x \<Rightarrow> Inl ValueError
            | Inr lo \<Rightarrow>
                (case int_of_str py b of Inl x \<Rightarrow> Inl ValueError | Inr hi \<Rightarrow> randint lo hi r))"
proof -
  have "split_on dash (a @ [dash] @ b) = a # b # []"
    using assms by (simp add: split_on_sep split_on_no_sep)
  then show ?thesis
    by (rule sleep_time_two_pieces)
qed

lemma randint_bounds: "randint lo hi r = Inr t \<Longrightarrow> lo \<le> t \<and> t \<le> hi"
proof -
  assume a: "randint lo hi r = Inr t"
  then have le: "lo \<le> hi" and t: "t = lo + int (r mod nat (hi - lo + 1))"
    by (auto simp: randint_def split: if_splits)
  have "r mod nat (hi - lo + 1) < nat (hi - lo + 1)"
    using le by (intro mod_less_divisor) simp
  then have "int (r mod nat (hi - lo + 1)) < hi - lo + 1"
    using le by linarith
  with t show ?thesis by simp
qed

lemma randint_error: "randint lo hi r = Inl x \<Longrightarrow> x = ValueError"
  by (auto simp: randint_def split: if_splits)

lemma randint_onto: "lo \<le> t \<Longrightarrow> t \<le> hi \<Longrightarrow> randint lo hi (nat (t - lo)) = Inr t"
  by (simp add: randint_def)

text \<open>
  Every block of as many consecutive outputs of the generator as the range has values
  yields each value of the range exactly once.
\<close>

lemma filter_mod_block:
  assumes "j < w"
  shows "length (filter (\<lambda>r. r mod w = j) [m * w ..< m * w + w]) = 1"
proof -
  have "[m * w ..< m * w + w] = map (\<lambda>i. m * w + i) [0 ..< w]"
    by (simp add: map_add_upt add.commute)
  then have "filter (\<lambda>r. r mod w = j) [m * w ..< m * w + w]
      = map (\<lambda>i. m * w + i) (filter (\<lambda>i. (m * w + i) mod w = j) [0 ..< w])"
    by (simp add: filter_map comp_def)
  also have "filter (\<lambda>i. (m * w + i) mod w = j) [0 ..< w] = filter (\<lambda>i. i = j) [0 ..< w]"
    by (rule filter_cong) auto
  also have "filter (\<lambda>i. i = j) [0 ..< w] = [j]"
    using assms by (induction w) auto
  finally show ?thesis by simp
qed

lemma filter_mod_blocks:
  assumes "j < w"
  shows "length (filter (\<lambda>r. r mod w = j) [0 ..< m * w]) = m"
proof (induction m)
  case 0
  show ?case by simp
next
  case (Suc m)
  have "[0 ..< Suc m * w] = [0 ..< m * w] @ [m * w ..< m * w + w]"
    using upt_add_eq_append [of 0 "m * w" w] by (simp add: add.commute)
  then show ?case
    using Suc filter_mod_block [OF assms, of m] by simp
qed

lemma randint_equidistributed:
  assumes "lo \<le> t" and "t \<le> hi"
  shows "length (filter (\<lambda>r. randint lo hi r = Inr t) [0 ..< m * nat (hi - lo + 1)]) = m"
proof -
  have "(randint lo hi r = Inr t) = (r mod nat (hi - lo + 1) = nat (t - lo))" for r
    using assms by (auto simp: randint_def)
  moreover have "nat (t - lo) < nat (hi - lo + 1)"
    using assms by linarith
  ultimately show ?thesis
    by (simp add: filter_mod_blocks)
qed

lemma sleep_time_nonneg:
  assumes "sleep_time py v r = Inr t"
  shows "0 \<le> t"
proof (cases v)
  case (PyInt n)
  with assms show ?thesis by (simp add: sleep_time_PyInt)
next
  case (PyStr a)
  obtain p ps where sp: "split_on dash a = p # ps"
    by (cases "split_on dash a") simp_all
  have pd: "dash \<notin> set p"
    using split_on_pieces [of p dash a] sp by simp
  show ?thesis
  proof (cases ps)
    case Nil
    with sp have "p = a" using split_on_single by metis
    with assms PyStr pd sp Nil show ?thesis
      using int_of_str_nonneg [of a py t] by (simp add: sleep_time_one_piece)
  next
    case (Cons q qs)
    from assms PyStr sp Cons obtain lo hi where
      "int_of_str py p = Inr lo" "randint lo hi r = Inr t"
      by (auto simp: sleep_time_two_pieces split: sum.splits)
    then show ?thesis using int_of_str_nonneg [OF pd] randint_bounds by fastforce
  qed
qed

lemma valid_interval_sleep_time:
  assumes "valid_interval py v"
  shows "\<exists>t. sleep_time py v r = Inr t"
proof (cases v)
  case (PyInt n)
  with assms show ?thesis by (simp add: valid_interval_def)
next
  case (PyStr a)
  obtain p ps where sp: "split_on dash a = p # ps"
    by (cases "split_on dash a") simp_all
  show ?thesis
  proof (cases ps)
    case Nil
    with sp have "p = a" using split_on_single by metis
    with assms PyStr sp Nil show ?thesis
      by (auto simp: valid_interval_def is_number_def sleep_time_one_piece split: sum.splits)
  next
    case (Cons q qs)
    with assms PyStr sp show ?thesis
      by (auto simp: valid_interval_def sleep_time_two_pieces randint_def split: sum.splits)
  qed
qed

lemma sleep_time_valid:
  assumes "sleep_time py v r = Inr t"
  shows "valid_interval py v"
proof (cases v)
  case (PyInt n)
  with assms show ?thesis by (simp add: sleep_time_PyInt)
next
  case (PyStr a)
  obtain p ps where sp: "split_on dash a = p # ps"
    by (cases "split_on dash a") simp_all
  show ?thesis
  proof (cases ps)
    case Nil
    with sp have "p = a" using split_on_single by metis
    with assms PyStr sp Nil show ?thesis
      by (simp add: valid_interval_def is_number_def sleep_time_one_piece)
  next
    case (Cons q qs)
    with assms PyStr sp show ?thesis
      by (auto simp: valid_interval_def sleep_time_two_pieces randint_def
          split: sum.splits if_splits)
  qed
qed

lemma sleep_time_fails_always:
  "sleep_time py v r = Inl x \<Longrightarrow> sleep_time py v r' = Inl x"
proof (cases v)
  case (PyInt n)
  assume "sleep_time py v r = Inl x"
  with PyInt show ?thesis by (simp add: sleep_time_PyInt)
next
  case (PyStr a)
  assume f: "sleep_time py v r = Inl x"
  obtain p ps where sp: "split_on dash a = p # ps"
    by (cases "split_on dash a") simp_all
  show ?thesis
  proof (cases ps)
    case Nil
    with f PyStr sp show ?thesis
      by (simp add: sleep_time_one_piece)
  next
    case (Cons q qs)
    with f PyStr sp show ?thesis
      by (auto simp: sleep_time_two_pieces randint_def split: sum.splits if_splits)
  qed
qed

section \<open>The steps of a cycle\<close>

lemma steps_Nil [simp]: "steps e [] = []"
  by (simp add: steps_def)

lemma steps_Cons [simp]: "steps e (ev # evs) = (if is_step e ev then ev # steps e evs else steps e evs)"
  by (simp add: steps_def)

lemma steps_append [simp]: "steps e (xs @ ys) = steps e xs @ steps e ys"
  by (simp add: steps_def)

lemma is_step_simps [simp]:
  "is_step e (Log Minor (SleepingFor t))" "is_step e (Log Change (IpChanged ip))"
  "is_step e (HttpGet p to)"
  "is_step e (Shell c) = (c = reload_command e \<or> c = query_command e)"
  "\<not> is_step e PrintNewline" "\<not> is_step e (Sleep n)" "\<not> is_step e (SocksConnect n b)"
  "\<not> is_step e (Log Change (Border n))" "\<not> is_step e (Log Change (BorderEnd n))"
  "\<not> is_step e (Log Info m)" "\<not> is_step e (Log Success m)"
  "\<not> is_step e (Log Error m)" "\<not> is_step e (Log Warn m)"
  by (simp_all add: is_step_def is_cycle_sleep_def is_request_def is_report_def)

lemma steps_failed_rounds: "steps e (concat (replicate k [SocksConnect 5 False, Sleep 2])) = []"
  by (induction k) simp_all

lemma wait_for_tor_run:
  "\<exists>evs. trace (snd (wait_for_tor e t s)) = trace s @ evs \<and> steps e evs = []"
proof -
  define s0 where "s0 = log Info (WaitingForTor t) s"
  from wait_loop_shape [of e "clock s0" t s0] obtain k where
    "trace (snd (wait_loop e (clock s0) t s0)) =
       trace s0 @ concat (replicate k [SocksConnect 5 False, Sleep 2])
         @ (if fst (wait_loop e (clock s0) t s0)
            then [SocksConnect 5 True, Log Success SocksResponding]
            else [Log Error SocksTimedOut])"
    by blast
  then have "trace (snd (wait_for_tor e t s)) =
       trace s @ (Log Info (WaitingForTor t) # concat (replicate k [SocksConnect 5 False, Sleep 2])
         @ (if fst (wait_loop e (clock s0) t s0)
            then [SocksConnect 5 True, Log Success SocksResponding]
            else [Log Error SocksTimedOut]))"
    by (simp add: wait_for_tor_def s0_def)
  moreover have "steps e (Log Info (WaitingForTor t) # concat (replicate k [SocksConnect 5 False, Sleep 2])
         @ (if fst (wait_loop e (clock s0) t s0)
            then [SocksConnect 5 True, Log Success SocksResponding]
            else [Log Error SocksTimedOut])) = []"
    by (simp add: steps_failed_rounds)
  ultimately show ?thesis by blast
qed

lemma reload_tor_service_run:
  "\<exists>evs. trace (reload_tor_service e s) = trace s @ evs
         \<and> steps e evs = [Shell (reload_command e)]"
proof (cases "\<not> docker_env e \<and> \<not> arch_linux e \<and> windows e")
  case True
  define s3 where
    "s3 = shell ''tor'' (sleep_for 1 (shell ''taskkill /IM tor.exe /F'' (log Info ReloadingTor s)))"
  have r: "reload_tor_service e s = snd (wait_for_tor e 30 s3)"
    using True by (simp add: reload_tor_service_def Let_def s3_def)
  obtain evs where w: "trace (snd (wait_for_tor e 30 s3)) = trace s3 @ evs" "steps e evs = []"
    using wait_for_tor_run by blast
  have t3: "trace s3 =
          trace s @ [Log Info ReloadingTor, Shell ''taskkill /IM tor.exe /F'', Sleep 1, Shell ''tor'']"
    by (simp add: s3_def)
  have "trace (reload_tor_service e s) =
          trace s @ ([Log Info ReloadingTor, Shell ''taskkill /IM tor.exe /F'', Sleep 1, Shell ''tor''] @ evs)"
    by (simp add: r w(1) t3)
  moreover have "steps e ([Log Info ReloadingTor, Shell ''taskkill /IM tor.exe /F'', Sleep 1, Shell ''tor''] @ evs)
          = [Shell (reload_command e)]"
    using True by (simp add: w(2) reload_command_def query_command_def)
  ultimately show ?thesis by blast
next
  case False
  then show ?thesis
    by (auto simp: reload_tor_service_def Let_def reload_command_def query_command_def
        split: option.splits)
qed

lemma ma_ip_tor_run:
  "\<exists>evs. trace (snd (ma_ip_tor e s)) = trace s @ evs
         \<and> steps e evs = [HttpGet TorCheck (Some 10)]"
  by (simp add: ma_ip_tor_def ma_ip_tor_try_def raise_for_status_def Let_def
      split: tor_reply.splits body.splits)

lemma ma_ip_normal_run:
  "\<exists>ip evs s'. ma_ip_normal e s = (Inr ip, s') \<and> trace s' = trace s @ evs
         \<and> steps e evs = [HttpGet PlainEcho None]"
  by (simp add: ma_ip_normal_def ma_ip_normal_try_def raise_for_status_def Let_def
      split: echo_reply.splits)

lemma ma_ip_tor_objects:
  "answers_objects e \<Longrightarrow> \<exists>ip. fst (ma_ip_tor e s) = Inr ip"
  by (simp add: answers_objects_def ma_ip_tor_def ma_ip_tor_try_def raise_for_status_def
      Let_def split: tor_reply.splits body.splits)

lemma ma_ip_run:
  "\<exists>evs. trace (snd (ma_ip e s)) = trace s @ evs
      \<and> ((\<exists>ip. fst (ma_ip e s) = Inr ip) \<longrightarrow>
           steps e evs = Shell (query_command e)
             # (if tor_process e (tick s)
                then [HttpGet TorCheck (Some 10), HttpGet TorCheck (Some 10)]
                else [HttpGet PlainEcho None]))"
proof -
  define s1 where "s1 = shell (query_command e) (step (log Info FetchingIp s))"
  have run: "is_tor_running e (log Info FetchingIp s) = (tor_process e (tick s), s1)"
    by (simp add: is_tor_running_def s1_def query_command_def)
  have t1: "trace s1 = trace s @ [Log Info FetchingIp, Shell (query_command e)]"
    by (simp add: s1_def)
  show ?thesis
  proof (cases "tor_process e (tick s)")
    case False
    obtain ip evs s' where n: "ma_ip_normal e s1 = (Inr ip, s')" "trace s' = trace s1 @ evs"
      "steps e evs = [HttpGet PlainEcho None]"
      using ma_ip_normal_run by blast
    have m: "ma_ip e s = (Inr ip, s')"
      using False by (simp add: ma_ip_def run n(1))
    have "trace (snd (ma_ip e s)) = trace s @ ([Log Info FetchingIp, Shell (query_command e)] @ evs)"
      by (simp add: m n(2) t1)
    moreover have "steps e ([Log Info FetchingIp, Shell (query_command e)] @ evs)
        = Shell (query_command e) # [HttpGet PlainEcho None]"
      by (simp add: n(3))
    ultimately show ?thesis using False by auto
  next
    case True
    obtain r1 s2 where a: "ma_ip_tor e s1 = (r1, s2)"
      by (cases "ma_ip_tor e s1")
    obtain ev1 where a2: "trace s2 = trace s1 @ ev1" "steps e ev1 = [HttpGet TorCheck (Some 10)]"
      using ma_ip_tor_run [of e s1] a by auto
    show ?thesis
    proof (cases r1)
      case (Inl x)
      have m: "ma_ip e s = (Inl x, s2)"
        using True by (simp add: ma_ip_def run a Inl)
      have "trace (snd (ma_ip e s)) = trace s @ ([Log Info FetchingIp, Shell (query_command e)] @ ev1)"
        by (simp add: m a2(1) t1)
      then show ?thesis
        using m by auto
    next
      case (Inr ip1)
      obtain r2 s4 where b: "ma_ip_tor e (sleep_for 5 s2) = (r2, s4)"
        by (cases "ma_ip_tor e (sleep_for 5 s2)")
      obtain ev2 where b2: "trace s4 = trace (sleep_for 5 s2) @ ev2"
        "steps e ev2 = [HttpGet TorCheck (Some 10)]"
        using ma_ip_tor_run [of e "sleep_for 5 s2"] b by auto
      show ?thesis
      proof (cases r2)
        case (Inl x)
        have m: "ma_ip e s = (Inl x, s4)"
          using True by (simp add: ma_ip_def run a Inr b Inl)
        have "trace (snd (ma_ip e s))
            = trace s @ ([Log Info FetchingIp, Shell (query_command e)] @ ev1 @ [Sleep 5] @ ev2)"
          by (simp add: m b2(1) a2(1) t1)
        then show ?thesis
          using m by auto
      next
        case r2: (Inr ip2)
        define tail where "tail = (if truthy ip1 \<and> truthy ip2 \<and> ip1 \<noteq> ip2
                       then [Log Warn (StaleCircuit ip1 ip2)] else [])"
        define s5 where "s5 = (if truthy ip1 \<and> truthy ip2 \<and> ip1 \<noteq> ip2
                       then log Warn (StaleCircuit ip1 ip2) s4 else s4)"
        have m: "ma_ip e s = (Inr (if truthy ip2 then ip2 else ip1), s5)"
          using True by (simp add: ma_ip_def run a Inr b r2 s5_def)
        have "trace (snd (ma_ip e s)) = trace s
            @ ([Log Info FetchingIp, Shell (query_command e)] @ ev1 @ [Sleep 5] @ ev2 @ tail)"
          by (simp add: m s5_def tail_def b2(1) a2(1) t1)
        moreover have "steps e ([Log Info FetchingIp, Shell (query_command e)] @ ev1 @ [Sleep 5]
            @ ev2 @ tail)
            = Shell (query_command e) # [HttpGet TorCheck (Some 10), HttpGet TorCheck (Some 10)]"
          by (simp add: a2(2) b2(2) tail_def)
        ultimately show ?thesis using True by auto
      qed
    qed
  qed
qed

lemma ma_ip_objects:
  assumes "answers_objects e"
  shows "\<exists>ip. fst (ma_ip e s) = Inr ip"
proof -
  define s1 where "s1 = shell (if windows e then ''tasklist'' else ''pgrep -x tor'')
                          (step (log Info FetchingIp s))"
  have run: "is_tor_running e (log Info FetchingIp s) = (tor_process e (tick s), s1)"
    by (simp add: is_tor_running_def s1_def)
  show ?thesis
  proof (cases "tor_process e (tick s)")
    case False
    obtain ip evs s' where "ma_ip_normal e s1 = (Inr ip, s')"
      using ma_ip_normal_run by blast
    with False show ?thesis
      by (simp add: ma_ip_def run)
  next
    case True
    obtain ip1 s2 where a: "ma_ip_tor e s1 = (Inr ip1, s2)"
      using ma_ip_tor_objects [OF assms, of s1] by (cases "ma_ip_tor e s1") auto
    obtain ip2 s4 where b: "ma_ip_tor e (sleep_for 5 s2) = (Inr ip2, s4)"
      using ma_ip_tor_objects [OF assms, of "sleep_for 5 s2"]
      by (cases "ma_ip_tor e (sleep_for 5 s2)") auto
    show ?thesis
      using True by (simp add: ma_ip_def run a b)
  qed
qed

lemma change_ip_run:
  "\<exists>evs. trace (snd (change_ip e s)) = trace s @ evs
      \<and> ((\<exists>ip. fst (change_ip e s) = Inr ip) \<longrightarrow>
           (\<exists>running. steps e evs = [Shell (reload_command e), Shell (query_command e)]
              @ (if running then [HttpGet TorCheck (Some 10), HttpGet TorCheck (Some 10)]
                 else [HttpGet PlainEcho None])))"
proof -
  define s0 where "s0 = log Info RequestingNewIp s"
  define s1 where "s1 = reload_tor_service e s0"
  have c: "change_ip e s = ma_ip e s1"
    by (simp add: change_ip_def s1_def s0_def)
  have t0: "trace s0 = trace s @ [Log Info RequestingNewIp]"
    by (simp add: s0_def)
  obtain ev1 where r: "trace s1 = trace s0 @ ev1" "steps e ev1 = [Shell (reload_command e)]"
    using reload_tor_service_run [of e s0] by (auto simp: s1_def)
  obtain ev2 where m: "trace (snd (ma_ip e s1)) = trace s1 @ ev2"
    "(\<exists>ip. fst (ma_ip e s1) = Inr ip) \<longrightarrow>
       steps e ev2 = Shell (query_command e)
         # (if tor_process e (tick s1)
            then [HttpGet TorCheck (Some 10), HttpGet TorCheck (Some 10)]
            else [HttpGet PlainEcho None])"
    using ma_ip_run [of e s1] by blast
  have "trace (snd (change_ip e s)) = trace s @ ([Log Info RequestingNewIp] @ ev1 @ ev2)"
    by (simp add: c m(1) r(1) t0)
  moreover have "\<exists>running. steps e ([Log Info RequestingNewIp] @ ev1 @ ev2)
      = [Shell (reload_command e), Shell (query_command e)]
          @ (if running then [HttpGet TorCheck (Some 10), HttpGet TorCheck (Some 10)]
             else [HttpGet PlainEcho None])"
    if "\<exists>ip. fst (change_ip e s) = Inr ip"
    using that m(2) by (intro exI [of _ "tor_process e (tick s1)"]) (simp add: c r(2))
  ultimately show ?thesis by blast
qed

lemma print_ip_trace:
  "trace (print_ip ip s) =
     trace s @ [PrintNewline, Log Change (Border (29 + length (ip_text ip))),
                Log Change (IpChanged ip), Log Change (BorderEnd (29 + length (ip_text ip)))]"
  by (simp add: print_ip_def Let_def)

lemma rotation_cycle_run:
  assumes st: "sleep_time (python e) interval (entropy e (tick s)) = Inr t"
    and ok: "sleep_error e (tick s) t = None"
    and ch: "change_ip e (sleep_for (nat t) (log Minor (SleepingFor t) s)) = (Inr ip, s2)"
  shows "rotation_cycle e interval s = (Inr ip, if truthy ip then print_ip ip s2 else s2)"
    and "trace (if truthy ip then print_ip ip s2 else s2) =
           trace s @ new_events s (if truthy ip then print_ip ip s2 else s2)"
    and "cycle_of e ip (new_events s (if truthy ip then print_ip ip s2 else s2))"
proof -
  have nn: "0 \<le> t" using st by (rule sleep_time_nonneg)
  define s1 where "s1 = sleep_for (nat t) (log Minor (SleepingFor t) s)"
  define s3 where "s3 = (if truthy ip then print_ip ip s2 else s2)"
  have sl: "py_sleep e t (log Minor (SleepingFor t) s) = (Inr (), s1)"
    using nn ok by (simp add: py_sleep_def s1_def)
  have t1: "trace s1 = trace s @ [Log Minor (SleepingFor t), Sleep (nat t)]"
    by (simp add: s1_def)
  obtain ev1 running where c: "trace s2 = trace s1 @ ev1"
    "steps e ev1 = [Shell (reload_command e), Shell (query_command e)]
        @ (if running then [HttpGet TorCheck (Some 10), HttpGet TorCheck (Some 10)]
           else [HttpGet PlainEcho None])"
    using change_ip_run [of e s1] ch by (auto simp: s1_def)
  define tail where "tail = (if truthy ip
      then [PrintNewline, Log Change (Border (29 + length (ip_text ip))), Log Change (IpChanged ip),
            Log Change (BorderEnd (29 + length (ip_text ip)))] else [])"
  show "rotation_cycle e interval s = (Inr ip, if truthy ip then print_ip ip s2 else s2)"
    using ch by (simp add: rotation_cycle_def st sl s1_def)
  have tr: "trace s3 = trace s @ Log Minor (SleepingFor t) # Sleep (nat t) # (ev1 @ tail)"
    by (simp add: s3_def tail_def print_ip_trace c(1) t1)
  then have ne: "new_events s s3 = Log Minor (SleepingFor t) # Sleep (nat t) # (ev1 @ tail)"
    by (simp add: new_events_def)
  show "trace (if truthy ip then print_ip ip s2 else s2) =
           trace s @ new_events s (if truthy ip then print_ip ip s2 else s2)"
    using tr ne by (simp add: s3_def)
  have "steps e (ev1 @ tail) = cycle_steps e running ip"
    by (simp add: c(2) tail_def cycle_steps_def)
  then have "cycle_of e ip (new_events s s3)"
    unfolding cycle_of_def ne using nn by blast
  then show "cycle_of e ip (new_events s (if truthy ip then print_ip ip s2 else s2))"
    by (simp add: s3_def)
qed

section \<open>Counting cycles\<close>

lemma rotation_cycle_ok:
  assumes v: "valid_interval (python e) interval"
    and a: "sleeps_accepted e interval"
    and r: "\<And>w. \<exists>ip. fst (ma_ip e w) = Inr ip \<and> P ip"
  shows "\<exists>ip s' c. rotation_cycle e interval s = (Inr ip, s') \<and> trace s' = trace s @ c
           \<and> P ip \<and> cycle_of e ip c"
proof -
  obtain t where st: "sleep_time (python e) interval (entropy e (tick s)) = Inr t"
    using valid_interval_sleep_time [OF v] by blast
  have ok: "sleep_error e (tick s) t = None"
    using a st unfolding sleeps_accepted_def by blast
  define s1 where "s1 = sleep_for (nat t) (log Minor (SleepingFor t) s)"
  obtain ip where i: "fst (change_ip e s1) = Inr ip" "P ip"
    using r [of "reload_tor_service e (log Info RequestingNewIp s1)"]
    by (auto simp: change_ip_def)
  obtain s2 where ch: "change_ip e s1 = (Inr ip, s2)"
    using i(1) by (cases "change_ip e s1") simp
  note rc = rotation_cycle_run [OF st ok ch [unfolded s1_def]]
  from rc(1) rc(2) rc(3) i(2) show ?thesis by blast
qed

lemma for_range_run:
  assumes v: "valid_interval (python e) interval"
    and a: "sleeps_accepted e interval"
    and r: "\<And>w. \<exists>ip. fst (ma_ip e w) = Inr ip \<and> P ip"
  shows "\<exists>s' cycles. for_range n e interval s = (Inr (), s')
           \<and> trace s' = trace s @ concat cycles \<and> length cycles = n
           \<and> (\<forall>c\<in>set cycles. \<exists>ip. P ip \<and> cycle_of e ip c)"
proof (induction n arbitrary: s)
  case 0
  show ?case
    by (intro exI [of _ s] exI [of _ "[]"]) simp
next
  case (Suc n)
  obtain ip s1 c where c: "rotation_cycle e interval s = (Inr ip, s1)" "trace s1 = trace s @ c"
    "P ip" "cycle_of e ip c"
    using rotation_cycle_ok [OF v a r, of s] by blast
  obtain s' cycles where l: "for_range n e interval s1 = (Inr (), s')"
    "trace s' = trace s1 @ concat cycles" "length cycles = n"
    "\<forall>c\<in>set cycles. \<exists>ip. P ip \<and> cycle_of e ip c"
    using Suc.IH [of s1] by blast
  show ?case
    using c l by (intro exI [of _ s'] exI [of _ "c # cycles"]) auto
qed

lemma while_true_run:
  assumes v: "valid_interval (python e) interval"
    and a: "sleeps_accepted e interval"
    and r: "\<And>w. \<exists>ip. fst (ma_ip e w) = Inr ip \<and> P ip"
  shows "\<exists>s' cycles. while_true fuel e interval s = (None, s')
           \<and> trace s' = trace s @ concat cycles \<and> length cycles = fuel
           \<and> (\<forall>c\<in>set cycles. \<exists>ip. P ip \<and> cycle_of e ip c)"
proof (induction fuel arbitrary: s)
  case 0
  show ?case
    by (intro exI [of _ s] exI [of _ "[]"]) simp
next
  case (Suc fuel)
  obtain ip s1 c where c: "rotation_cycle e interval s = (Inr ip, s1)" "trace s1 = trace s @ c"
    "P ip" "cycle_of e ip c"
    using rotation_cycle_ok [OF v a r, of s] by blast
  obtain s' cycles where l: "while_true fuel e interval s1 = (None, s')"
    "trace s' = trace s1 @ concat cycles" "length cycles = fuel"
    "\<forall>c\<in>set cycles. \<exists>ip. P ip \<and> cycle_of e ip c"
    using Suc.IH [of s1] by blast
  show ?case
    using c l by (intro exI [of _ s'] exI [of _ "c # cycles"]) auto
qed

lemma bounded_run:
  assumes v: "valid_interval (python e) interval"
    and a: "sleeps_accepted e interval"
    and r: "\<And>w. \<exists>ip. fst (ma_ip e w) = Inr ip \<and> P ip"
    and c: "0 < count"
  shows "\<exists>s' cycles. change_ip_repeatedly fuel e interval count s = (Returned, s')
           \<and> trace s' = trace s @ concat cycles \<and> length cycles = nat count
           \<and> (\<forall>c\<in>set cycles. \<exists>ip. P ip \<and> cycle_of e ip c)"
proof -
  obtain s' cycles where l: "for_range (nat count) e interval s = (Inr (), s')"
    "trace s' = trace s @ concat cycles" "length cycles = nat count"
    "\<forall>c\<in>set cycles. \<exists>ip. P ip \<and> cycle_of e ip c"
    using for_range_run [OF v a r, of "nat count" s] by blast
  have "change_ip_repeatedly fuel e interval count s = (Returned, s')"
    using c by (simp add: change_ip_repeatedly_def l(1))
  with l show ?thesis by blast
qed

lemma unbounded_run:
  assumes v: "valid_interval (python e) interval"
    and a: "sleeps_accepted e interval"
    and r: "\<And>w. \<exists>ip. fst (ma_ip e w) = Inr ip \<and> P ip"
  shows "\<exists>s' cycles. change_ip_repeatedly fuel e interval 0 s = (Running, s')
           \<and> trace s' = trace s @ concat cycles \<and> length cycles = fuel
           \<and> (\<forall>c\<in>set cycles. \<exists>ip. P ip \<and> cycle_of e ip c)"
proof -
  obtain s' cycles where l: "while_true fuel e interval s = (None, s')"
    "trace s' = trace s @ concat cycles" "length cycles = fuel"
    "\<forall>c\<in>set cycles. \<exists>ip. P ip \<and> cycle_of e ip c"
    using while_true_run [OF v a r, of fuel s] by blast
  have "change_ip_repeatedly fuel e interval 0 s = (Running, s')"
    by (simp add: change_ip_repeatedly_def l(1))
  with l show ?thesis by blast
qed

lemma count_report_steps: "count_events is_report (steps e evs) = count_events is_report evs"
  by (induction evs) (auto simp: is_step_def)

lemma cycle_of_reports:
  assumes "cycle_of e ip c"
  shows "count_events is_report c = (if truthy ip then 1 else 0)"
proof -
  from assms obtain t running rest where
    c: "c = Log Minor (SleepingFor t) # Sleep (nat t) # rest"
    "steps e rest = cycle_steps e running ip"
    unfolding cycle_of_def by blast
  have "count_events is_report rest = count_events is_report (cycle_steps e running ip)"
    using count_report_steps [of e rest] c(2) by simp
  also have "\<dots> = (if truthy ip then 1 else 0)"
    by (simp add: cycle_steps_def is_report_def)
  finally show ?thesis
    by (simp add: c(1) is_report_def)
qed

lemma silent_cycles_no_report:
  "\<forall>c\<in>set cycles. silent_cycle e c \<Longrightarrow> count_events is_report (concat cycles) = 0"
  by (induction cycles) (auto simp: silent_cycle_def cycle_of_reports)

lemma count_sleep_steps:
  "count_events is_cycle_sleep (steps e evs) = count_events is_cycle_sleep evs"
  by (induction evs) (auto simp: is_step_def)

lemma cycle_of_sleeps:
  assumes "cycle_of e ip c"
  shows "count_events is_cycle_sleep c = 1"
proof -
  from assms obtain t running rest where
    c: "c = Log Minor (SleepingFor t) # Sleep (nat t) # rest"
    "steps e rest = cycle_steps e running ip"
    unfolding cycle_of_def by blast
  have "count_events is_cycle_sleep rest = count_events is_cycle_sleep (cycle_steps e running ip)"
    using count_sleep_steps [of e rest] c(2) by simp
  also have "\<dots> = 0"
    by (simp add: cycle_steps_def is_cycle_sleep_def)
  finally show ?thesis
    by (simp add: c(1) is_cycle_sleep_def)
qed

lemma cycles_sleeps:
  "\<forall>c\<in>set cycles. \<exists>ip. P ip \<and> cycle_of e ip c \<Longrightarrow>
   count_events is_cycle_sleep (concat cycles) = length cycles"
  by (induction cycles) (auto simp: cycle_of_sleeps)

lemmas int_eval =
  int_of_str_def to_ascii_def strip_def is_space_def signed_literal_def int_literal_def
  is_digit_def digit_val_def too_long_def cpython311_def

lemma sample_range: "sleep_time cpython311 (PyStr (ascii ''2-3'')) r = randint 2 3 r"
  by (simp add: sleep_time_def sleep_time_try_def py_split_dash_def item_def ascii_def
      dash_def int_eval randint_def)

lemma sample_range_valid: "valid_interval cpython311 (PyStr (ascii ''2-3''))"
  by (simp add: valid_interval_def ascii_def dash_def int_eval)

lemma sample_range_sleeps: "sleeps_accepted (e\<lparr>python := cpython311, sleep_error := sleep_error linux_env\<rparr>) (PyStr (ascii ''2-3''))"
proof -
  have "sleep_error linux_env k t = None" if "randint 2 3 r = Inr t" for k r t
    using randint_bounds [OF that] by (simp add: linux_env_def)
  then show ?thesis
    by (simp add: sleeps_accepted_def sample_range)
qed

lemma linux_env_fields:
  "linux_env\<lparr>python := cpython311, sleep_error := sleep_error linux_env\<rparr> = linux_env"
  "offline_env\<lparr>python := cpython311, sleep_error := sleep_error linux_env\<rparr> = offline_env"
  "docker_offline_env\<lparr>python := cpython311, sleep_error := sleep_error linux_env\<rparr>
     = docker_offline_env"
  "python linux_env = cpython311" "python offline_env = cpython311"
  "python docker_offline_env = cpython311"
  by (simp_all add: linux_env_def offline_env_def docker_offline_env_def)

lemma ma_ip_all_failed:
  assumes t: "\<And>k. tor_failed (tor_answer e k)" and n: "\<And>k. echo_failed (echo_answer e k)"
  shows "fst (ma_ip e w) = Inr None"
proof -
  define s1 where "s1 = shell (if windows e then ''tasklist'' else ''pgrep -x tor'')
                          (step (log Info FetchingIp w))"
  have run: "is_tor_running e (log Info FetchingIp w) = (tor_process e (tick w), s1)"
    by (simp add: is_tor_running_def s1_def)
  show ?thesis
  proof (cases "tor_process e (tick w)")
    case False
    have "fst (ma_ip_normal e s1) = Inr None"
      using n by (rule ma_ip_normal_failed)
    with False show ?thesis
      by (simp add: ma_ip_def run)
  next
    case True
    obtain s2 where a: "ma_ip_tor e s1 = (Inr None, s2)"
      using ma_ip_tor_failed [OF t, of s1] by (cases "ma_ip_tor e s1") simp
    obtain s4 where b: "ma_ip_tor e (sleep_for 5 s2) = (Inr None, s4)"
      using ma_ip_tor_failed [OF t, of "sleep_for 5 s2"]
      by (cases "ma_ip_tor e (sleep_for 5 s2)") simp
    show ?thesis
      using True by (simp add: ma_ip_def run a b truthy_def)
  qed
qed

lemma offline_no_address:
  "\<exists>ip. fst (ma_ip docker_offline_env w) = Inr ip \<and> \<not> truthy ip"
proof -
  have "fst (ma_ip docker_offline_env w) = Inr None"
    by (rule ma_ip_all_failed)
       (simp_all add: docker_offline_env_def offline_env_def tor_failed_def echo_failed_def)
  then show ?thesis
    by (simp add: truthy_def)
qed

text \<open>
  Claim C6, for an interval specification that the code accepts, durations that
  \<^verbatim>\<open>time.sleep\<close> accepts and a verification endpoint whose answers are JSON objects
  (otherwise a cycle raises and the run ends early).  With a positive count \<open>n\<close> the run
  returns, and what it did is exactly \<open>n\<close> complete cycles one after the other: each
  announces a duration, sleeps for it, runs the reload command, asks for the process,
  sends its requests and reports the address if there is one.  With count 0 the run
  never returns by itself: whatever number of cycles it is given, it performs all of
  them and is still running.  Every cycle has one announcement of a sleep, so the events
  cannot be read as another number of cycles.
\<close>

theorem count_cycles_then_stop:
  assumes "valid_interval (python e) interval"
    and "sleeps_accepted e interval"
    and "answers_objects e"
  shows "(0 < count \<longrightarrow>
           (\<exists>s' cycles. change_ip_repeatedly fuel e interval count s = (Returned, s')
              \<and> trace s' = trace s @ concat cycles \<and> length cycles = nat count
              \<and> list_all (is_cycle e) cycles
              \<and> count_events is_cycle_sleep (concat cycles) = nat count))
       \<and> (\<exists>s' cycles. change_ip_repeatedly fuel e interval 0 s = (Running, s')
              \<and> trace s' = trace s @ concat cycles \<and> length cycles = fuel
              \<and> list_all (is_cycle e) cycles
              \<and> count_events is_cycle_sleep (concat cycles) = fuel)"
proof -
  have r: "\<exists>ip. fst (ma_ip e w) = Inr ip \<and> True" for w
    using ma_ip_objects [OF assms(3), of w] by simp
  have a: "\<exists>s' cycles. change_ip_repeatedly fuel e interval count s = (Returned, s')
              \<and> trace s' = trace s @ concat cycles \<and> length cycles = nat count
              \<and> list_all (is_cycle e) cycles
              \<and> count_events is_cycle_sleep (concat cycles) = nat count"
    if c: "0 < count"
  proof -
    obtain s' cycles where l: "change_ip_repeatedly fuel e interval count s = (Returned, s')"
      "trace s' = trace s @ concat cycles" "length cycles = nat count"
      "\<forall>c\<in>set cycles. \<exists>ip. True \<and> cycle_of e ip c"
      using bounded_run [OF assms(1) assms(2) r c, of fuel s] by blast
    have "list_all (is_cycle e) cycles"
      using l(4) by (simp add: list_all_iff is_cycle_def)
    moreover have "count_events is_cycle_sleep (concat cycles) = nat count"
      using cycles_sleeps [OF l(4)] l(3) by simp
    ultimately show ?thesis
      using l(1) l(2) l(3) by blast
  qed
  obtain s' cycles where l: "change_ip_repeatedly fuel e interval 0 s = (Running, s')"
    "trace s' = trace s @ concat cycles" "length cycles = fuel"
    "\<forall>c\<in>set cycles. \<exists>ip. True \<and> cycle_of e ip c"
    using unbounded_run [OF assms(1) assms(2) r, of fuel s] by blast
  have "list_all (is_cycle e) cycles"
    using l(4) by (simp add: list_all_iff is_cycle_def)
  moreover have "count_events is_cycle_sleep (concat cycles) = fuel"
    using cycles_sleeps [OF l(4)] l(3) by simp
  ultimately have b: "\<exists>s' cycles. change_ip_repeatedly fuel e interval 0 s = (Running, s')
              \<and> trace s' = trace s @ concat cycles \<and> length cycles = fuel
              \<and> list_all (is_cycle e) cycles
              \<and> count_events is_cycle_sleep (concat cycles) = fuel"
    using l(1) l(2) l(3) by blast
  from a b show ?thesis by blast
qed

theorem count_cycles_then_stop_witness:
  "valid_interval (python linux_env) (PyStr (ascii ''2-3''))
   \<and> sleeps_accepted linux_env (PyStr (ascii ''2-3''))
   \<and> answers_objects linux_env \<and> (0::int) < 3
   \<and> fst (change_ip_repeatedly 0 linux_env (PyStr (ascii ''2-3'')) 3 initial_world) = Returned
   \<and> count_events is_cycle_sleep
        (trace (snd (change_ip_repeatedly 0 linux_env (PyStr (ascii ''2-3'')) 3 initial_world))) = 3
   \<and> fst (change_ip_repeatedly 4 linux_env (PyStr (ascii ''2-3'')) 0 initial_world) = Running
   \<and> count_events is_cycle_sleep
        (trace (snd (change_ip_repeatedly 4 linux_env (PyStr (ascii ''2-3'')) 0 initial_world))) = 4"
proof -
  have v: "valid_interval (python linux_env) (PyStr (ascii ''2-3''))"
    by (simp add: linux_env_fields sample_range_valid)
  have a: "sleeps_accepted linux_env (PyStr (ascii ''2-3''))"
    using sample_range_sleeps [of linux_env] by (simp add: linux_env_fields)
  have o: "answers_objects linux_env"
    by (simp add: answers_objects_def linux_env_def)
  have p: "(0::int) < 3"
    by simp
  from count_cycles_then_stop [OF v a o, of 3 0 initial_world] p obtain s1 cycles1 where
    b: "change_ip_repeatedly 0 linux_env (PyStr (ascii ''2-3'')) 3 initial_world = (Returned, s1)"
    "trace s1 = trace initial_world @ concat cycles1"
    "count_events is_cycle_sleep (concat cycles1) = nat 3"
    by blast
  from count_cycles_then_stop [OF v a o, of 3 4 initial_world] obtain s2 cycles2 where
    c: "change_ip_repeatedly 4 linux_env (PyStr (ascii ''2-3'')) 0 initial_world = (Running, s2)"
    "trace s2 = trace initial_world @ concat cycles2"
    "count_events is_cycle_sleep (concat cycles2) = 4"
    by blast
  have i: "trace initial_world = []"
    by (simp add: initial_world_def)
  show ?thesis
    unfolding b(1) c(1) using v a o b(2) b(3) c(2) c(3) by (simp add: i)
qed

text \<open>
  Claim C7.  The exit status of the reload command is discarded by the code, so a reload
  that fails is one of the environments below.  First, for any cycle: when the interval
  yields a duration, \<^verbatim>\<open>time.sleep\<close> accepts it and the resolution after the reload
  yields an empty or absent address, the cycle does not raise and ends in the state the
  resolution left (nothing is reported); its events are those of a complete cycle with no
  report among them; and both loops go on with their next cycle from that state.
  Second, for the whole run: when the code accepts the interval, \<^verbatim>\<open>time.sleep\<close>
  accepts its durations and every resolution yields an empty or absent address, a run
  with a positive count returns after exactly that number of complete cycles, none of
  which reports, and an unbounded run performs every cycle it is given and is still
  running.
\<close>

theorem empty_address_skips_report:
  "(sleep_time (python e) interval (entropy e (tick s)) = Inr t
      \<and> sleep_error e (tick s) t = None
      \<and> change_ip e (sleep_for (nat t) (log Minor (SleepingFor t) s)) = (Inr ip, s2)
      \<and> \<not> truthy ip
    \<longrightarrow> rotation_cycle e interval s = (Inr ip, s2)
        \<and> trace s2 = trace s @ new_events s s2
        \<and> silent_cycle e (new_events s s2)
        \<and> count_events is_report (new_events s s2) = 0
        \<and> for_range (Suc n) e interval s = for_range n e interval s2
        \<and> while_true (Suc n) e interval s = while_true n e interval s2)
   \<and> (valid_interval (python e) interval \<and> sleeps_accepted e interval
      \<and> (\<forall>w. \<exists>ip. fst (ma_ip e w) = Inr ip \<and> \<not> truthy ip)
    \<longrightarrow> (0 < count \<longrightarrow>
           (\<exists>s' cycles. change_ip_repeatedly fuel e interval count s = (Returned, s')
              \<and> trace s' = trace s @ concat cycles \<and> length cycles = nat count
              \<and> list_all (silent_cycle e) cycles
              \<and> count_events is_report (concat cycles) = 0))
        \<and> (\<exists>s' cycles. change_ip_repeatedly fuel e interval 0 s = (Running, s')
              \<and> trace s' = trace s @ concat cycles \<and> length cycles = fuel
              \<and> list_all (silent_cycle e) cycles
              \<and> count_events is_report (concat cycles) = 0))"
proof (intro conjI impI)
  assume h: "sleep_time (python e) interval (entropy e (tick s)) = Inr t
      \<and> sleep_error e (tick s) t = None
      \<and> change_ip e (sleep_for (nat t) (log Minor (SleepingFor t) s)) = (Inr ip, s2)
      \<and> \<not> truthy ip"
  from h have st: "sleep_time (python e) interval (entropy e (tick s)) = Inr t"
    by (elim conjE)
  from h have ok: "sleep_error e (tick s) t = None"
    by (elim conjE)
  from h have ch: "change_ip e (sleep_for (nat t) (log Minor (SleepingFor t) s)) = (Inr ip, s2)"
    by (elim conjE)
  from h have em: "\<not> truthy ip"
    by (elim conjE)
  have e2: "(if truthy ip then print_ip ip s2 else s2) = s2"
    using em by simp
  note rc = rotation_cycle_run [OF st ok ch, unfolded e2]
  show c1: "rotation_cycle e interval s = (Inr ip, s2)"
    by (rule rc(1))
  show "trace s2 = trace s @ new_events s s2"
    by (rule rc(2))
  have cy: "cycle_of e ip (new_events s s2)"
    by (rule rc(3))
  then show "silent_cycle e (new_events s s2)"
    using em unfolding silent_cycle_def by blast
  show "count_events is_report (new_events s s2) = 0"
    using cycle_of_reports [OF cy] em by simp
  show "for_range (Suc n) e interval s = for_range n e interval s2"
    by (simp add: c1)
  show "while_true (Suc n) e interval s = while_true n e interval s2"
    by (simp add: c1)
next
  assume h: "valid_interval (python e) interval \<and> sleeps_accepted e interval
      \<and> (\<forall>w. \<exists>ip. fst (ma_ip e w) = Inr ip \<and> \<not> truthy ip)"
  assume c: "0 < count"
  from h have v: "valid_interval (python e) interval"
    by (elim conjE)
  from h have a: "sleeps_accepted e interval"
    by (elim conjE)
  from h have r: "\<exists>ip. fst (ma_ip e w) = Inr ip \<and> \<not> truthy ip" for w
    by (elim conjE allE)
  obtain s' cycles where l: "change_ip_repeatedly fuel e interval count s = (Returned, s')"
    "trace s' = trace s @ concat cycles" "length cycles = nat count"
    "\<forall>c\<in>set cycles. \<exists>ip. \<not> truthy ip \<and> cycle_of e ip c"
    using bounded_run [OF v a r c, of fuel s] by blast
  have sc: "\<forall>c\<in>set cycles. silent_cycle e c"
    using l(4) by (simp add: silent_cycle_def)
  then have "list_all (silent_cycle e) cycles"
    by (simp add: list_all_iff)
  moreover have "count_events is_report (concat cycles) = 0"
    using sc by (rule silent_cycles_no_report)
  ultimately show "\<exists>s' cycles. change_ip_repeatedly fuel e interval count s = (Returned, s')
              \<and> trace s' = trace s @ concat cycles \<and> length cycles = nat count
              \<and> list_all (silent_cycle e) cycles
              \<and> count_events is_report (concat cycles) = 0"
    using l(1) l(2) l(3) by blast
next
  assume h: "valid_interval (python e) interval \<and> sleeps_accepted e interval
      \<and> (\<forall>w. \<exists>ip. fst (ma_ip e w) = Inr ip \<and> \<not> truthy ip)"
  from h have v: "valid_interval (python e) interval"
    by (elim conjE)
  from h have a: "sleeps_accepted e interval"
    by (elim conjE)
  from h have r: "\<exists>ip. fst (ma_ip e w) = Inr ip \<and> \<not> truthy ip" for w
    by (elim conjE allE)
  obtain s' cycles where l: "change_ip_repeatedly fuel e interval 0 s = (Running, s')"
    "trace s' = trace s @ concat cycles" "length cycles = fuel"
    "\<forall>c\<in>set cycles. \<exists>ip. \<not> truthy ip \<and> cycle_of e ip c"
    using unbounded_run [OF v a r, of fuel s] by blast
  have sc: "\<forall>c\<in>set cycles. silent_cycle e c"
    using l(4) by (simp add: silent_cycle_def)
  then have "list_all (silent_cycle e) cycles"
    by (simp add: list_all_iff)
  moreover have "count_events is_report (concat cycles) = 0"
    using sc by (rule silent_cycles_no_report)
  ultimately show "\<exists>s' cycles. change_ip_repeatedly fuel e interval 0 s = (Running, s')
              \<and> trace s' = trace s @ concat cycles \<and> length cycles = fuel
              \<and> list_all (silent_cycle e) cycles
              \<and> count_events is_report (concat cycles) = 0"
    using l(1) l(2) l(3) by blast
qed

end
